theory Spec2Isabelle
  imports Complex_Main "HOL-Library.Sublist" "HOL-Library.Multiset"
begin

section \<open>Data model\<close>

text \<open>
  Both tables of the pipeline carry the columns \<open>department\<close>, \<open>supplier\<close> and
  \<open>amount\<close>; they are declared once and extended by the remaining columns of either
  table. Amounts are Float64 in the source; they are modelled as exact rationals, so
  rounding is idealised away, while division by zero is modelled explicitly below.
  Dates are day numbers, so that the difference of two dates is their distance in days.
  A column value of the transaction table is never null after ingestion (nulls are
  filled or filtered there); only \<open>category\<close> may be absent, which is \<open>None\<close>.
\<close>

record spend =
  department :: string
  supplier :: string
  amount :: rat

record payment = spend +
  date :: int
  expense_type :: string
  description :: string
  category :: "string option"

text \<open>
  The \<open>details\<close> column is an f-string rendered from a template and its arguments;
  the model keeps the template and the arguments and leaves the rendering out.
\<close>

datatype details =
  High_payment_details rat rat
  | Duplicate_details rat nat int
  | Spend_share_details rat rat
  | Txn_share_details rat rat

record anomaly = spend +
  anomaly_type :: string
  severity :: string
  details :: details
  count :: nat

datatype error = ZeroDivisionError | ValueError

section \<open>Configuration (config.py)\<close>

text \<open>
  The tables of the configuration are Python dictionaries, iterated in insertion order;
  they are association lists in that order (the keys of a dictionary are distinct, which
  is proved of the shipped tables where it is used). Non-ASCII characters of a key are
  written as their UTF-8 bytes.
\<close>

definition CATEGORIES :: "string list" where
  "CATEGORIES =
    [''IT'',
     ''Consultancy'',
     ''Construction'',
     ''Operations'',
     ''Legal'',
     ''HR/Staffing'',
     ''Grants'',
     ''Administrative'']"

definition CATEGORY_KEYWORDS :: "(string \<times> string list) list" where
  "CATEGORY_KEYWORDS =
    [(''IT'',
      [''software'', ''IT'', ''licence'', ''license'', ''system'', ''digital'', ''cloud'',
       ''hosting'', ''server'', ''hardware'', ''telephony'', ''computer'', ''laptop'',
       ''ICT'', ''infrastructure'', ''network'', ''data centre'', ''data center'',
       ''IT RUN'', ''END USER COMPUTER'', ''NETWORKING'', ''DATA CHARGES'',
       ''application licensing'', ''technical service'', ''connectivity'']),
     (''Consultancy'',
      [''consultancy'', ''consulting'', ''consultant'', ''advisory'',
       ''professional services'', ''technical'', ''organisational'', ''organizational'',
       ''market'', ''research'', ''audit'', ''accounting'', ''finance'', ''tax'',
       ''forensic'', ''HIRE OF CONSULTANTS'', ''MANAGEMENT CONSULT'', ''user research'']),
     (''Construction'',
      [''construction'', ''building'', ''infrastructure'', ''AUC'', ''capital'',
       ''renewal'', ''maintenance'', ''estate'', ''facilities'', ''refurbishment'',
       ''repair'', ''property'', ''leasehold'', ''BUILDING SERVICE'',
       ''ESTATE MANAGEMENT'', ''PROPERTY MAINTENANCE'', ''vessel maintenance'',
       ''motorcycle maintenance'']),
     (''Operations'',
      [''TOC'', ''train'', ''rail'', ''travel'', ''accommodation'', ''hotel'',
       ''vehicle'', ''fleet'', ''fuel'', ''fares'', ''aviation'', ''franchise'',
       ''utilities'', ''electricity'', ''gas'', ''water'', ''energy'', ''marketing'',
       ''advertising'', ''campaign'', ''media'', ''PR'', ''postal'', ''courier'',
       ''mail'', ''ARVAL FUEL'', ''RAIL FARES'', ''ASYLUM SEEKER TRAVEL'',
       ''eurocontrol'', ''flying charge'', ''corporate travel'']),
     (''Legal'',
      [''legal'', ''barrister'', ''solicitor'', ''counsel'', ''appeal'', ''litigation'',
       ''tribunal'', ''LEGAL ADVICE'', ''LEGAL REPRESENTATION'', ''ADVERSE LEGAL'',
       ''claim'', ''liability'']),
     (''HR/Staffing'',
      [''contingent labour'', ''mandays'', ''recruitment'', ''contractor'', ''agency'',
       ''temporary'', ''staffing'', ''personnel'', ''CONTINGENT LABOUR'',
       ''PROJECT MANDAYS'', ''AGENCY STAFF'', ''basic salary'', ''salary'',
       ''apprentice levy'', ''partner: staffing'', ''technical partner'',
       ''commercial partner'']),
     (''Grants'',
      [''grant'', ''grt'', ''subsidy'', ''subsid'', ''aid'', ''fund'', ''payment to'',
       ''transfer'', ''GRT AID'', ''CAP GRT'', ''CURR GRT'', ''CAPITAL GRANT'',
       ''grant in aid'']),
     (''Administrative'',
      [''business rates'', ''insurance'', ''car parking'', ''parking'', ''conference'',
       ''training'', ''learning'', ''subscription'', ''membership'', ''office'',
       ''stationery'', ''supplies'', ''camera'', ''equipment'', ''bank charges'',
       ''block charges'', ''service charge'', ''allocation'', ''PFI'', ''unitary'',
       ''suspense'', ''GR/IR'', ''CS LEARNING'', ''CONFERENCES'', ''BPO VOLUMETRIC'',
       ''DIRECT COSTS'', ''FM ALLOCATION'', ''printing'', ''non-stock'',
       ''expense claim''])]"

definition DIRECT_EXPENSE_TYPE_MAPPING :: "(string \<times> (string \<times> string) list) list" where
  "DIRECT_EXPENSE_TYPE_MAPPING =
    [(''HMRC'',
      [(''PROJECT Mandays Supp'', ''HR/Staffing''),
       (''Utility Payments - electricity'', ''Operations''),
       (''PROJECT Mandays HMRC'', ''HR/Staffing''),
       (''Project Development'', ''IT''),
       (''Physical Hosting and Infrastructure'', ''IT''),
       (''System Maintenance'', ''IT''),
       (''Property Management Services (Irrecoverable VAT)'', ''Construction''),
       (''Project support'', ''IT''),
       (''Desktop Services'', ''IT''),
       (''Rent (Irrec VAT)'', ''Construction''),
       (''Virtual Hosting and Infrastructure'', ''IT''),
       (''IT Software Licenses and Support'', ''IT''),
       (''Employee education'', ''Administrative''),
       (''Contin Labor Build'', ''HR/Staffing''),
       (''Contracted Services'', ''Operations''),
       (''Consultancy - IT'', ''Consultancy''),
       (''Projects VAT irrec'', ''IT''),
       (''Tribunal appellant costs'', ''Legal''),
       (''Maintenance fees'', ''Construction''),
       (''Contingent Labour Build'', ''HR/Staffing'')]),
     (''Home Office'',
      [(''IT RUN COST'', ''IT''),
       (''CONTINGENT LABOUR OTHER'', ''HR/Staffing''),
       (''OTHER ICT COSTS'', ''IT''),
       (''SYSTEM CLEARING'', ''IT''),
       (''FULL COST'', ''HR/Staffing''),
       (''RESEARCH AND DEVELOPMENT'', ''Consultancy''),
       (''HOSTING'', ''IT''),
       (''ASYLUM CASES'', ''Operations''),
       (''END USER COMPUTER SOFTWARE'', ''IT''),
       (''IN COUNTRY ESCORT'', ''Operations''),
       (''ADVICE'', ''Consultancy''),
       (''RUN COSTS'', ''Operations''),
       (''SPECIALIST USER SOFTWARE & HARDWARE'', ''IT''),
       (''BASIC SALARY'', ''HR/Staffing''),
       (''CONTRACTS'', ''Operations''),
       (''PROJECT'', ''IT''),
       (''LEGAL ADVICE'', ''Legal''),
       (''AD PRODUCTION'', ''Operations''),
       (''FLEET MANAGEMENT'', ''Operations''),
       (''OTHER'', ''Administrative'')]),
     (''DfT'',
      [(''TA Cost AUC - Programme'', ''Construction''),
       (''TA Renewal of Roads - Capital'', ''Construction''),
       (''Subsidies Private Se'', ''Grants''),
       (''TA Renewal of Structures - Capital'', ''Construction''),
       (''Cap Grt Loc Auth'', ''Grants''),
       (''TA Cost AUC  Non SRN'', ''Construction''),
       (''CM - Lump Sum Fees'', ''Construction''),
       (''AUC - Phase 1'', ''Construction''),
       (''Contractor Costs'', ''HR/Staffing''),
       (''RM Cost Reimbursable'', ''Construction''),
       (''TA Cost AUC '' @ [CHR 0xE2, CHR 0x80, CHR 0x93] @ '' Non SRN'', ''Construction''),
       (''Support Services'', ''Administrative''),
       (''Research'', ''Consultancy''),
       (''Professional Services'', ''Consultancy''),
       (''Cap Grt Pri Sec-Cos.'', ''Grants''),
       (''Mail Collection/Deli'', ''Operations''),
       (''IT Ser Running Costs'', ''IT''),
       (''Consultants Costs'', ''Consultancy''),
       (''PFI Service Payments'', ''Administrative''),
       (''TOCOpCosts(Pub)'', ''Operations'')])]"

record thresholds =
  high_payment :: "(string \<times> rat) list"
  concentration_threshold_spend :: rat
  concentration_threshold_txn :: rat
  duplicate_window_days :: int

definition ANOMALY_THRESHOLDS :: thresholds where
  "ANOMALY_THRESHOLDS =
    \<lparr>high_payment = [(''HMRC'', 934000), (''Home Office'', 884000), (''DfT'', 1360000)],
     concentration_threshold_spend = 15 / 100,
     concentration_threshold_txn = 10 / 100,
     duplicate_window_days = 7\<rparr>"

text \<open>The three checks of \<open>validate_config\<close>, in the order of the source.\<close>

definition keyword_table_ok :: "string list \<Rightarrow> (string \<times> string list) list \<Rightarrow> bool" where
  "keyword_table_ok cats kw = (set (map fst kw) = set cats)"

definition direct_mapping_ok ::
  "string list \<Rightarrow> (string \<times> (string \<times> string) list) list \<Rightarrow> bool" where
  "direct_mapping_ok cats dm = (\<forall>(dept, mappings) \<in> set dm. set (map snd mappings) \<subseteq> set cats)"

definition validate_config ::
  "string list \<Rightarrow> (string \<times> string list) list \<Rightarrow> (string \<times> (string \<times> string) list) list
    \<Rightarrow> thresholds \<Rightarrow> error + unit" where
  "validate_config cats kw dm thr =
    (if \<not> keyword_table_ok cats kw then Inl ValueError
     else if \<not> direct_mapping_ok cats dm then Inl ValueError
     else if \<not> {''HMRC'', ''Home Office'', ''DfT''} \<subseteq> set (map fst (high_payment thr))
       then Inl ValueError
     else Inr ())"

section \<open>Keyword matching (classify.py)\<close>

text \<open>
  The source joins the keywords of a category into one regular expression,
  \<open>(?i)kw1|(?i)kw2|...\<close>, and asks whether it matches anywhere in the column value.
  The join of no keywords is the empty pattern, which matches every value. For a
  keyword of ASCII characters free of regular-expression metacharacters the pattern
  \<open>(?i)kw\<close> is a sequence of character classes, one for each character of the
  keyword, and the classes are those of Unicode simple case folding: a letter matches
  its lower-case and its upper-case form, \<open>s\<close> matches the long s (U+017F) as well,
  \<open>k\<close> matches the Kelvin sign (U+212A) as well, and any other character matches
  itself. No other code point folds to an ASCII letter.

  Strings are the UTF-8 bytes of the column value, so the long s is the two bytes
  \<open>C5 BF\<close> and the Kelvin sign the three bytes \<open>E2 84 AA\<close>. On bytes, two ASCII
  characters are the same letter up to case when \<open>ascii_lower\<close> maps them to the same
  byte: an upper-case letter (codes 65 to 90) becomes the lower-case one by setting
  bit 5, that is, by adding 32, and every other byte is kept.
\<close>

definition ascii_lower :: "char \<Rightarrow> char" where
  "ascii_lower c =
    (if 65 \<le> (of_char c :: nat) \<and> (of_char c :: nat) \<le> 90
     then (case c of Char b0 b1 b2 b3 b4 b5 b6 b7 \<Rightarrow> Char b0 b1 b2 b3 b4 True b6 b7)
     else c)"

definition long_s :: string where
  "long_s = [CHR 0xC5, CHR 0xBF]"

definition kelvin_sign :: string where
  "kelvin_sign = [CHR 0xE2, CHR 0x84, CHR 0xAA]"

text \<open>
  The pattern \<open>(?i)kw\<close> matched at the start of \<open>s\<close>: the class of the first
  character takes one byte of the same letter, or the bytes of the long s or of the
  Kelvin sign, and the rest of the pattern is matched behind it.
\<close>

fun matches_at :: "string \<Rightarrow> string \<Rightarrow> bool" where
  "matches_at [] s = True"
| "matches_at (c # kw) s =
    ((case s of [] \<Rightarrow> False | b # rest \<Rightarrow> ascii_lower b = ascii_lower c \<and> matches_at kw rest)
     \<or> (ascii_lower c = CHR ''s'' \<and> prefix long_s s \<and> matches_at kw (drop 2 s))
     \<or> (ascii_lower c = CHR ''k'' \<and> prefix kelvin_sign s \<and> matches_at kw (drop 3 s)))"

text \<open>The unanchored search: the pattern matches at some position of the value.\<close>

fun contains_ci :: "string \<Rightarrow> string \<Rightarrow> bool" where
  "contains_ci kw [] = matches_at kw []"
| "contains_ci kw (b # s) = (matches_at kw (b # s) \<or> contains_ci kw s)"

definition regex_metachars :: "char list" where
  "regex_metachars = [CHR 0x5C] @ ''.+*?()|[]{}^$''"

definition ascii_string :: "string \<Rightarrow> bool" where
  "ascii_string kw = (\<forall>c \<in> set kw. (of_char c :: nat) < 128)"

definition plain_keyword :: "string \<Rightarrow> bool" where
  "plain_keyword kw = (ascii_string kw \<and> (\<forall>c \<in> set kw. c \<notin> set regex_metachars))"

definition str_contains :: "string list \<Rightarrow> string \<Rightarrow> bool" where
  "str_contains keywords s = (if keywords = [] then True else list_ex (\<lambda>kw. contains_ci kw s) keywords)"

section \<open>The classification cascade (classify.py)\<close>

text \<open>\<open>with_columns(expr.alias('category'))\<close>: the column is replaced, or added when absent.\<close>

definition with_category :: "(payment \<Rightarrow> string option) \<Rightarrow> payment list \<Rightarrow> payment list" where
  "with_category expr df = map (\<lambda>r. r\<lparr>category := expr r\<rparr>) df"

definition tier0_conditions ::
  "(string \<times> (string \<times> string) list) list \<Rightarrow> (string \<times> string \<times> string) list" where
  "tier0_conditions dm =
    concat (map (\<lambda>(dept, mapping). map (\<lambda>(et, cat). (dept, et, cat)) mapping) dm)"

text \<open>
  The nested \<open>when/then/otherwise\<close> expression: every condition wraps the expression
  built so far, so the last condition of the list that holds decides, and all of them
  read the category column of the same input table.
\<close>

definition tier0_expr :: "(string \<times> string \<times> string) list \<Rightarrow> payment \<Rightarrow> string option" where
  "tier0_expr conds r =
    foldl (\<lambda>expr (dept, et, cat).
        if department r = dept \<and> expense_type r = et \<and> category r = Some [] then Some cat
        else expr)
      (category r) conds"

definition tier0 ::
  "(string \<times> (string \<times> string) list) list \<Rightarrow> bool \<Rightarrow> payment list \<Rightarrow> payment list" where
  "tier0 dm use_direct_map result =
    (if use_direct_map then with_category (tier0_expr (tier0_conditions dm)) result else result)"

definition keyword_step ::
  "(payment \<Rightarrow> string) \<Rightarrow> payment list \<Rightarrow> string \<times> string list \<Rightarrow> payment list" where
  "keyword_step col result = (\<lambda>(cat, keywords).
    with_category
      (\<lambda>r. if category r = Some [] \<and> str_contains keywords (col r) then Some cat
           else category r)
      result)"

definition tier1 :: "(string \<times> string list) list \<Rightarrow> payment list \<Rightarrow> payment list" where
  "tier1 kw result = foldl (keyword_step description) result kw"

definition tier2 :: "(string \<times> string list) list \<Rightarrow> payment list \<Rightarrow> payment list" where
  "tier2 kw result = foldl (keyword_step expense_type) result kw"

definition mark_uncategorised :: "payment list \<Rightarrow> payment list" where
  "mark_uncategorised result =
    with_category (\<lambda>r. if category r = Some [] then Some ''Uncategorised'' else category r) result"

text \<open>
  \<open>classify_payments\<close> reads the keyword table and the direct mapping from the
  module \<open>config\<close>; \<open>classify_payments_with\<close> is the same function with the two
  tables as arguments. The log lines after Tier 0 and after Tier 1 divide by
  \<open>stats['total'] = len(df)\<close>; on a table without rows every path through the function
  reaches one of them and raises ZeroDivisionError.
\<close>

definition classify_payments_with ::
  "(string \<times> string list) list \<Rightarrow> (string \<times> (string \<times> string) list) list
    \<Rightarrow> payment list \<Rightarrow> bool \<Rightarrow> error + payment list" where
  "classify_payments_with kw dm df use_direct_map =
    (let result = with_category (\<lambda>_. Some []) df;
         total = length df;
         result = tier0 dm use_direct_map result;
         result = tier1 kw result;
         result = tier2 kw result;
         result = mark_uncategorised result
     in if total = 0 then Inl ZeroDivisionError else Inr result)"

definition classify_payments :: "payment list \<Rightarrow> bool \<Rightarrow> error + payment list" where
  "classify_payments df use_direct_map =
    classify_payments_with CATEGORY_KEYWORDS DIRECT_EXPENSE_TYPE_MAPPING df use_direct_map"

section \<open>Anomaly detection (anomalies.py)\<close>

text \<open>
  An anomaly table is the list of its rows; its schema is the record type \<open>anomaly\<close>,
  whose seven fields are the seven columns. The detectors read the thresholds from
  \<open>config.ANOMALY_THRESHOLDS\<close>, which the model passes as the argument \<open>thr\<close>.
\<close>

definition empty_anomaly_df :: "anomaly list" where
  "empty_anomaly_df = []"

definition detect_high_payments :: "thresholds \<Rightarrow> payment list \<Rightarrow> anomaly list" where
  "detect_high_payments thr df =
    (let anomalies = concat (map (\<lambda>(dept, threshold).
           map (\<lambda>row.
               \<lparr>department = department row, supplier = supplier row, amount = amount row,
                anomaly_type = ''high_payment'', severity = ''high'',
                details = High_payment_details (amount row) threshold, count = 1\<rparr>)
             (filter (\<lambda>r. department r = dept \<and> amount r > threshold) df))
         (high_payment thr))
     in if anomalies \<noteq> [] then anomalies else empty_anomaly_df)"

text \<open>
  \<open>group_by\<close>: one group per distinct key. The source leaves the order of the groups
  unspecified; the statements below about grouped detectors do not depend on it.
\<close>

definition group_by :: "(payment \<Rightarrow> 'k) \<Rightarrow> payment list \<Rightarrow> ('k \<times> payment list) list" where
  "group_by key df = map (\<lambda>k. (k, filter (\<lambda>r. key r = k) df)) (remdups (map key df))"

text \<open>The scan over adjacent pairs of the sorted dates, leaving at the first close pair.\<close>

fun has_close_dates :: "int list \<Rightarrow> int \<Rightarrow> bool" where
  "has_close_dates (d0 # d1 # ds) window_days =
    (if d1 - d0 \<le> window_days then True else has_close_dates (d1 # ds) window_days)"
| "has_close_dates _ window_days = False"

definition detect_duplicate_patterns :: "thresholds \<Rightarrow> payment list \<Rightarrow> anomaly list" where
  "detect_duplicate_patterns thr df =
    (let grouped = map (\<lambda>((dept, supp, amt), rows). (dept, supp, amt, sort (map date rows), length rows))
           (group_by (\<lambda>r. (department r, supplier r, amount r)) df);
         potential_dupes = filter (\<lambda>(dept, supp, amt, dates, cnt). cnt \<ge> 2) grouped;
         window_days = duplicate_window_days thr;
         anomalies = concat (map (\<lambda>(dept, supp, amt, dates, cnt).
             if has_close_dates dates window_days then
               [\<lparr>department = dept, supplier = supp, amount = amt,
                 anomaly_type = ''duplicate_pattern'',
                 severity = (if cnt \<ge> 4 then ''high'' else ''medium''),
                 details = Duplicate_details amt cnt window_days, count = cnt\<rparr>]
             else [])
           potential_dupes)
     in if anomalies \<noteq> [] then anomalies else empty_anomaly_df)"

text \<open>
  Division. The filter divides two Float64 columns: a division by zero gives an
  infinity, or NaN for zero by zero, and the column comparison orders NaN above every
  number. The loop over the flagged rows divides the same two numbers again as Python
  floats, where a zero divisor raises ZeroDivisionError.
\<close>

datatype quotient = Finite rat | PosInf | NegInf | NaN

definition float_div :: "rat \<Rightarrow> rat \<Rightarrow> quotient" where
  "float_div a b =
    (if b \<noteq> 0 then Finite (a / b)
     else if a > 0 then PosInf else if a < 0 then NegInf else NaN)"

fun float_gt :: "quotient \<Rightarrow> rat \<Rightarrow> bool" where
  "float_gt (Finite q) t = (q > t)"
| "float_gt PosInf t = True"
| "float_gt NegInf t = False"
| "float_gt NaN t = True"

definition py_div :: "rat \<Rightarrow> rat \<Rightarrow> error + rat" where
  "py_div a b = (if b = 0 then Inl ZeroDivisionError else Inr (a / b))"

text \<open>\<open>left.join(right, on='department')\<close>, an inner join.\<close>

definition join_department ::
  "(string \<times> string \<times> 'a \<times> 'b) list \<Rightarrow> (string \<times> 'c) list
    \<Rightarrow> (string \<times> string \<times> 'a \<times> 'b \<times> 'c) list" where
  "join_department left right =
    concat (map (\<lambda>(dept, supp, a, b).
        map (\<lambda>(d, total). (dept, supp, a, b, total)) (filter (\<lambda>(d, total). d = dept) right))
      left)"

fun spend_results ::
  "rat \<Rightarrow> (string \<times> string \<times> rat \<times> nat \<times> rat) list \<Rightarrow> error + anomaly list" where
  "spend_results threshold_spend [] = Inr []"
| "spend_results threshold_spend ((dept, supp, supplier_total, txn_count, dept_total) # rows) =
    (case py_div supplier_total dept_total of
       Inl e \<Rightarrow> Inl e
     | Inr q \<Rightarrow>
        (case spend_results threshold_spend rows of
           Inl e \<Rightarrow> Inl e
         | Inr results \<Rightarrow>
            Inr (\<lparr>department = dept, supplier = supp, amount = supplier_total,
                  anomaly_type = ''supplier_concentration_spend'', severity = ''high'',
                  details = Spend_share_details (q * 100) (threshold_spend * 100),
                  count = txn_count\<rparr> # results)))"

fun txn_results ::
  "rat \<Rightarrow> (string \<times> string \<times> nat \<times> rat \<times> nat) list \<Rightarrow> error + anomaly list" where
  "txn_results threshold_txn [] = Inr []"
| "txn_results threshold_txn ((dept, supp, supplier_txn_count, supplier_amount, dept_txn_total) # rows) =
    (case py_div (of_nat supplier_txn_count) (of_nat dept_txn_total) of
       Inl e \<Rightarrow> Inl e
     | Inr q \<Rightarrow>
        (case txn_results threshold_txn rows of
           Inl e \<Rightarrow> Inl e
         | Inr results \<Rightarrow>
            Inr (\<lparr>department = dept, supplier = supp, amount = supplier_amount,
                  anomaly_type = ''supplier_concentration_txn'', severity = ''medium'',
                  details = Txn_share_details (q * 100) (threshold_txn * 100),
                  count = supplier_txn_count\<rparr> # results)))"

text \<open>
  The totals of a department and of a supplier are sums of the amount column. The model
  adds exactly; the source adds Float64 values, each addition rounded. The two agree
  when the amounts and their partial sums are exactly representable, as whole pounds
  and pence-free amounts of ordinary size are, and can differ otherwise: Float64 adds
  \<open>1e16 + 1 - 1e16\<close> to \<open>0\<close>, the model to \<open>1\<close>.
\<close>

definition high_spend :: "thresholds \<Rightarrow> payment list \<Rightarrow> (string \<times> string \<times> rat \<times> nat \<times> rat) list" where
  "high_spend thr df =
    (let dept_spend = map (\<lambda>(dept, rows). (dept, sum_list (map amount rows))) (group_by department df);
         supplier_spend = join_department
           (map (\<lambda>((dept, supp), rows). (dept, supp, sum_list (map amount rows), length rows))
             (group_by (\<lambda>r. (department r, supplier r)) df))
           dept_spend;
         threshold_spend = concentration_threshold_spend thr
     in filter (\<lambda>(dept, supp, supplier_total, txn_count, dept_total).
            float_gt (float_div supplier_total dept_total) threshold_spend)
          supplier_spend)"

definition high_txn :: "thresholds \<Rightarrow> payment list \<Rightarrow> (string \<times> string \<times> nat \<times> rat \<times> nat) list" where
  "high_txn thr df =
    (let dept_txns = map (\<lambda>(dept, rows). (dept, length rows)) (group_by department df);
         supplier_txns = join_department
           (map (\<lambda>((dept, supp), rows). (dept, supp, length rows, sum_list (map amount rows)))
             (group_by (\<lambda>r. (department r, supplier r)) df))
           dept_txns;
         threshold_txn = concentration_threshold_txn thr
     in filter (\<lambda>(dept, supp, supplier_txn_count, supplier_amount, dept_txn_total).
            float_gt (float_div (of_nat supplier_txn_count) (of_nat dept_txn_total)) threshold_txn)
          supplier_txns)"

definition detect_supplier_concentration :: "thresholds \<Rightarrow> payment list \<Rightarrow> error + anomaly list" where
  "detect_supplier_concentration thr df =
    (case spend_results (concentration_threshold_spend thr) (high_spend thr df) of
       Inl e \<Rightarrow> Inl e
     | Inr spend \<Rightarrow>
        (case txn_results (concentration_threshold_txn thr) (high_txn thr df) of
           Inl e \<Rightarrow> Inl e
         | Inr txn \<Rightarrow>
            (let results = spend @ txn
             in Inr (if results \<noteq> [] then results else empty_anomaly_df))))"

text \<open>\<open>pl.concat\<close> raises ValueError on an empty list of frames.\<close>

definition pl_concat :: "anomaly list list \<Rightarrow> error + anomaly list" where
  "pl_concat items = (if items = [] then Inl ValueError else Inr (concat items))"

definition detect_anomalies :: "thresholds \<Rightarrow> payment list \<Rightarrow> error + anomaly list" where
  "detect_anomalies thr df =
    (let high_payments = detect_high_payments thr df;
         duplicates = detect_duplicate_patterns thr df
     in case detect_supplier_concentration thr df of
          Inl e \<Rightarrow> Inl e
        | Inr concentration \<Rightarrow>
           (let all_anomalies = [high_payments, duplicates, concentration]
            in if all_anomalies \<noteq> [] then pl_concat (filter (\<lambda>a. length a > 0) all_anomalies)
               else Inr empty_anomaly_df))"

section \<open>The case-insensitive substring of the specification\<close>

text \<open>
  What the specification calls a keyword occurring as a case-insensitive substring of
  a value, stated without the search: both strings are case-folded, and the folded
  keyword is a contiguous part of the folded value (\<open>sublist\<close>: the value is some
  prefix, then the keyword, then some suffix). Case folding replaces an upper-case
  ASCII letter by the lower-case one, the long s by \<open>s\<close> and the Kelvin sign by
  \<open>k\<close>; it leaves every other byte, since no other code point folds to an ASCII
  character and the keywords of the configuration are ASCII.
\<close>

fun casefold :: "string \<Rightarrow> string" where
  "casefold [] = []"
| "casefold (b # s) =
    (if prefix long_s (b # s) then CHR ''s'' # casefold (drop 1 s)
     else if prefix kelvin_sign (b # s) then CHR ''k'' # casefold (drop 2 s)
     else ascii_lower b # casefold s)"

definition ci_substring :: "string \<Rightarrow> string \<Rightarrow> bool" where
  "ci_substring kw s = sublist (casefold kw) (casefold s)"

section \<open>The all-pairs check of the specification\<close>

text \<open>
  The reference the adjacent-pair scan is compared with: two different members of the
  group, anywhere in it, whose dates are at most \<open>window_days\<close> apart.
\<close>

definition all_pairs_check :: "int list \<Rightarrow> int \<Rightarrow> bool" where
  "all_pairs_check dates window_days =
    list_ex (\<lambda>i. list_ex (\<lambda>j. i \<noteq> j \<and> \<bar>dates ! j - dates ! i\<bar> \<le> window_days)
      [0..<length dates]) [0..<length dates]"

section \<open>Row-wise readings used in the proofs\<close>

text \<open>
  The category a row holds after a keyword tier, given the column value \<open>v\<close> the tier
  reads and the category \<open>c\<close> the row held before: the loop over the categories, one row
  at a time.
\<close>

fun keyword_category :: "(string \<times> string list) list \<Rightarrow> string \<Rightarrow> string option \<Rightarrow> string option" where
  "keyword_category [] v c = c"
| "keyword_category ((cat, keywords) # rest) v c =
    keyword_category rest v (if c = Some [] \<and> str_contains keywords v then Some cat else c)"

text \<open>The category Tier 0 leaves on a row whose category column was just reset.\<close>

definition tier0_category :: "(string \<times> (string \<times> string) list) list \<Rightarrow> bool \<Rightarrow> payment \<Rightarrow> string option" where
  "tier0_category dm use_direct_map r =
    (if use_direct_map then tier0_expr (tier0_conditions dm) (r\<lparr>category := Some []\<rparr>) else Some [])"

text \<open>The dictionary lookup \<open>directMapping[department][expense_type]\<close>.\<close>

definition direct_lookup :: "(string \<times> (string \<times> string) list) list \<Rightarrow> string \<Rightarrow> string \<Rightarrow> string option" where
  "direct_lookup dm dept et = (case map_of dm dept of None \<Rightarrow> None | Some mapping \<Rightarrow> map_of mapping et)"

text \<open>
  Write-once between two stages of the cascade: a row whose category is set (not the
  empty string) before the stage holds the same category after it.
\<close>

definition keeps_assigned :: "payment list \<Rightarrow> payment list \<Rightarrow> bool" where
  "keeps_assigned before after =
    (length after = length before \<and>
     (\<forall>i<length before. category (before ! i) \<noteq> Some [] \<longrightarrow> category (after ! i) = category (before ! i)))"

text \<open>The position of a detector in the order in which the aggregator runs them.\<close>

definition detector_rank :: "string \<Rightarrow> nat" where
  "detector_rank t =
    (if t = ''high_payment'' then 0
     else if t = ''duplicate_pattern'' then 1
     else if t = ''supplier_concentration_spend'' then 2
     else 3)"

section \<open>The adjacent-pair scan against the all-pairs check\<close>

lemma all_pairs_check_iff:
  "all_pairs_check ds w \<longleftrightarrow> (\<exists>i<length ds. \<exists>j<length ds. i \<noteq> j \<and> \<bar>ds ! j - ds ! i\<bar> \<le> w)"
  by (simp add: all_pairs_check_def list_ex_iff Bex_def)

lemma all_pairs_check_Cons:
  "all_pairs_check (d # ds) w \<longleftrightarrow> (\<exists>e\<in>set ds. \<bar>e - d\<bar> \<le> w) \<or> all_pairs_check ds w"
proof
  assume "all_pairs_check (d # ds) w"
  then obtain i j where ij: "i < Suc (length ds)" "j < Suc (length ds)" "i \<noteq> j"
    "\<bar>(d # ds) ! j - (d # ds) ! i\<bar> \<le> w"
    by (auto simp: all_pairs_check_iff)
  show "(\<exists>e\<in>set ds. \<bar>e - d\<bar> \<le> w) \<or> all_pairs_check ds w"
  proof (cases i)
    case 0
    with ij obtain j' where "j = Suc j'" "j' < length ds" by (cases j) auto
    with 0 ij have "ds ! j' \<in> set ds" "\<bar>ds ! j' - d\<bar> \<le> w" by auto
    then show ?thesis by blast
  next
    case (Suc i')
    show ?thesis
    proof (cases j)
      case 0
      with Suc ij have "ds ! i' \<in> set ds" "\<bar>ds ! i' - d\<bar> \<le> w" by auto
      then show ?thesis by blast
    next
      case (Suc j')
      with \<open>i = Suc i'\<close> ij have "i' < length ds" "j' < length ds" "i' \<noteq> j'"
        "\<bar>ds ! j' - ds ! i'\<bar> \<le> w" by auto
      then show ?thesis unfolding all_pairs_check_iff by blast
    qed
  qed
next
  assume "(\<exists>e\<in>set ds. \<bar>e - d\<bar> \<le> w) \<or> all_pairs_check ds w"
  then show "all_pairs_check (d # ds) w"
  proof
    assume "\<exists>e\<in>set ds. \<bar>e - d\<bar> \<le> w"
    then obtain k where "k < length ds" "\<bar>ds ! k - d\<bar> \<le> w"
      by (auto simp: in_set_conv_nth)
    then have "0 < Suc (length ds)" "Suc k < Suc (length ds)" "0 \<noteq> Suc k"
      "\<bar>(d # ds) ! Suc k - (d # ds) ! 0\<bar> \<le> w" by auto
    then show ?thesis unfolding all_pairs_check_iff length_Cons by blast
  next
    assume "all_pairs_check ds w"
    then obtain i j where "i < length ds" "j < length ds" "i \<noteq> j" "\<bar>ds ! j - ds ! i\<bar> \<le> w"
      by (auto simp: all_pairs_check_iff)
    then have "Suc i < Suc (length ds)" "Suc j < Suc (length ds)" "Suc i \<noteq> Suc j"
      "\<bar>(d # ds) ! Suc j - (d # ds) ! Suc i\<bar> \<le> w" by auto
    then show ?thesis unfolding all_pairs_check_iff length_Cons by blast
  qed
qed

lemma all_pairs_check_Nil [simp]: "\<not> all_pairs_check [] w"
  by (simp add: all_pairs_check_def)

lemma all_pairs_check_insort:
  "all_pairs_check (insort x xs) w = all_pairs_check (x # xs) w"
proof (induction xs)
  case Nil
  then show ?case by simp
next
  case (Cons y ys)
  have sym: "\<bar>x - y\<bar> = \<bar>y - x\<bar>" by simp
  show ?case
  proof (cases "x \<le> y")
    case True
    then show ?thesis by simp
  next
    case False
    then have "all_pairs_check (insort x (y # ys)) w
        = ((\<exists>e\<in>set (insort x ys). \<bar>e - y\<bar> \<le> w) \<or> all_pairs_check (x # ys) w)"
      using Cons.IH by (simp add: all_pairs_check_Cons)
    also have "\<dots> = all_pairs_check (x # y # ys) w"
      using sym by (auto simp: all_pairs_check_Cons set_insort_key)
    finally show ?thesis .
  qed
qed

lemma all_pairs_check_sort: "all_pairs_check (sort xs) w = all_pairs_check xs w"
  by (induction xs) (simp_all add: all_pairs_check_insort all_pairs_check_Cons)

lemma has_close_dates_sorted:
  "sorted xs \<Longrightarrow> has_close_dates xs w = all_pairs_check xs w"
proof (induction xs w rule: has_close_dates.induct)
  case (1 d0 d1 ds w)
  show ?case
  proof (cases "d1 - d0 \<le> w")
    case True
    with 1 have "\<bar>d1 - d0\<bar> \<le> w" by simp
    then show ?thesis using True by (auto simp: all_pairs_check_Cons)
  next
    case False
    with 1 have far: "\<forall>e\<in>set (d1 # ds). \<not> \<bar>e - d0\<bar> \<le> w" by auto
    have "has_close_dates (d0 # d1 # ds) w = has_close_dates (d1 # ds) w"
      using False by simp
    also have "\<dots> = all_pairs_check (d1 # ds) w"
      using 1 False by simp
    also have "\<dots> = all_pairs_check (d0 # d1 # ds) w"
      using far all_pairs_check_Cons [of d0 "d1 # ds" w] by blast
    finally show ?thesis .
  qed
qed (simp_all add: all_pairs_check_Cons)

text \<open>
  Claim C3. For a group of at least two records, the scan over the adjacent pairs of the
  ascending-sorted dates flags the group exactly when some two different records of the
  group, at any positions, have dates at most \<open>window_days\<close> apart.
\<close>

theorem adjacent_scan_equals_all_pairs:
  "2 \<le> length dates \<Longrightarrow> has_close_dates (sort dates) window_days = all_pairs_check dates window_days"
  by (simp add: has_close_dates_sorted all_pairs_check_sort)

theorem adjacent_scan_equals_all_pairs_witness:
  "2 \<le> length [31, 1, 3 :: int] \<and> has_close_dates (sort [31, 1, 3]) 7 \<and> all_pairs_check [31, 1, 3] 7
    \<and> 2 \<le> length [20, 1 :: int] \<and> \<not> has_close_dates (sort [20, 1]) 7 \<and> \<not> all_pairs_check [20, 1] 7"
  using adjacent_scan_equals_all_pairs [of "[31, 1, 3]" 7]
    adjacent_scan_equals_all_pairs [of "[20, 1]" 7]
  by simp

section \<open>The aggregator when nothing is found\<close>

lemma detect_anomalies_all_empty:
  assumes "detect_high_payments thr df = []" and "detect_duplicate_patterns thr df = []"
    and "detect_supplier_concentration thr df = Inr []"
  shows "detect_anomalies thr df = Inl ValueError"
  using assms by (simp add: detect_anomalies_def pl_concat_def)

text \<open>
  A table with rows on which no detector finds anything: eleven suppliers of one
  department with one small payment each, so that every share is one eleventh.
\<close>

lemma detect_anomalies_quiet_table:
  "detect_anomalies ANOMALY_THRESHOLDS
     (map (\<lambda>s. \<lparr>department = ''HMRC'', supplier = s, amount = 10, date = 20089,
                 expense_type = '''', description = '''', category = Some ''Uncategorised''\<rparr>)
        [''S01'', ''S02'', ''S03'', ''S04'', ''S05'', ''S06'', ''S07'', ''S08'', ''S09'', ''S10'', ''S11''])
    = Inl ValueError"
  by code_simp

text \<open>
  Claim C1. When every detector finds nothing, the aggregator should return the empty
  anomaly table. On the table without rows all three detectors return the empty table,
  the list of non-empty frames handed to \<open>pl.concat\<close> is empty, and the call raises
  ValueError; the branch returning the empty table is never taken.
\<close>

theorem detect_anomalies_empty_table: "detect_anomalies ANOMALY_THRESHOLDS [] = Inl ValueError"
  by code_simp

section \<open>The cascade, row by row\<close>

lemma length_with_category [simp]: "length (with_category f df) = length df"
  by (simp add: with_category_def)

lemma nth_with_category [simp]:
  "i < length df \<Longrightarrow> with_category f df ! i = (df ! i)\<lparr>category := f (df ! i)\<rparr>"
  by (simp add: with_category_def)

lemma keyword_tier_map:
  assumes col: "\<And>r c. col (r\<lparr>category := c\<rparr>) = col r"
  shows "foldl (keyword_step col) df kw
    = map (\<lambda>r. r\<lparr>category := keyword_category kw (col r) (category r)\<rparr>) df"
proof (induction kw arbitrary: df)
  case Nil
  show ?case by (simp add: map_idI)
next
  case (Cons x kw)
  obtain cat kws where x: "x = (cat, kws)" by (cases x)
  have "foldl (keyword_step col) df (x # kw) = foldl (keyword_step col) (keyword_step col df x) kw"
    by simp
  also have "\<dots> = map (\<lambda>r. r\<lparr>category := keyword_category kw (col r) (category r)\<rparr>)
      (keyword_step col df x)"
    by (rule Cons.IH)
  also have "\<dots> = map (\<lambda>r. r\<lparr>category := keyword_category (x # kw) (col r) (category r)\<rparr>) df"
    by (simp add: x keyword_step_def with_category_def col comp_def)
  finally show ?case .
qed

lemma tier1_map:
  "tier1 kw df = map (\<lambda>r. r\<lparr>category := keyword_category kw (description r) (category r)\<rparr>) df"
  unfolding tier1_def by (rule keyword_tier_map) simp

lemma tier2_map:
  "tier2 kw df = map (\<lambda>r. r\<lparr>category := keyword_category kw (expense_type r) (category r)\<rparr>) df"
  unfolding tier2_def by (rule keyword_tier_map) simp

lemma keyword_category_assigned:
  "c \<noteq> Some [] \<Longrightarrow> keyword_category kw v c = c"
  by (induction kw v c rule: keyword_category.induct) simp_all

lemma keyword_category_first_match:
  "[] \<notin> fst ` set kw \<Longrightarrow>
    keyword_category kw v (Some []) =
      (case find (\<lambda>(cat, keywords). str_contains keywords v) kw of
         None \<Rightarrow> Some [] | Some (cat, keywords) \<Rightarrow> Some cat)"
  by (induction kw) (auto simp: keyword_category_assigned)

lemma keyword_category_range:
  "keyword_category kw v c = c \<or> (\<exists>cat \<in> fst ` set kw. keyword_category kw v c = Some cat)"
proof (induction kw v c rule: keyword_category.induct)
  case (1 v c)
  show ?case by simp
next
  case (2 cat kws rest v c)
  then show ?case by (cases "c = Some [] \<and> str_contains kws v") auto
qed

lemma classify_payments_with_eq:
  "classify_payments_with kw dm df udm =
    (if df = [] then Inl ZeroDivisionError
     else Inr (mark_uncategorised (tier2 kw (tier1 kw (tier0 dm udm (with_category (\<lambda>_. Some []) df))))))"
  by (simp add: classify_payments_with_def Let_def)

lemma classify_payments_empty_table: "classify_payments [] use_direct_map = Inl ZeroDivisionError"
  by (simp add: classify_payments_def classify_payments_with_eq)

lemma stage0_map:
  "tier0 dm udm (with_category (\<lambda>_. Some []) df) = map (\<lambda>r. r\<lparr>category := tier0_category dm udm r\<rparr>) df"
  by (simp add: tier0_def with_category_def tier0_category_def comp_def tier0_expr_def)

lemma stage1_map:
  "tier1 kw (tier0 dm udm (with_category (\<lambda>_. Some []) df))
    = map (\<lambda>r. r\<lparr>category := keyword_category kw (description r) (tier0_category dm udm r)\<rparr>) df"
  by (simp add: tier1_map stage0_map comp_def)

lemma stage2_map:
  "tier2 kw (tier1 kw (tier0 dm udm (with_category (\<lambda>_. Some []) df)))
    = map (\<lambda>r. r\<lparr>category := keyword_category kw (expense_type r)
        (keyword_category kw (description r) (tier0_category dm udm r))\<rparr>) df"
  by (simp add: tier2_map stage1_map comp_def)

lemma stage3_map:
  "mark_uncategorised (tier2 kw (tier1 kw (tier0 dm udm (with_category (\<lambda>_. Some []) df))))
    = map (\<lambda>r. r\<lparr>category :=
        (let c = keyword_category kw (expense_type r)
           (keyword_category kw (description r) (tier0_category dm udm r))
         in if c = Some [] then Some ''Uncategorised'' else c)\<rparr>) df"
  unfolding mark_uncategorised_def stage2_map
  by (simp add: with_category_def comp_def Let_def)

lemma tier0_category_strip [simp]:
  "tier0_category dm udm (r\<lparr>category := c\<rparr>) = tier0_category dm udm r"
  by (simp add: tier0_category_def)

lemma classify_ignores_category:
  "classify_payments_with kw dm (map (\<lambda>r. r\<lparr>category := f r\<rparr>) df) udm = classify_payments_with kw dm df udm"
  by (simp add: classify_payments_with_eq stage3_map comp_def)

lemma classify_strip:
  assumes "classify_payments_with kw dm df udm = Inr out"
  shows "map (\<lambda>r. r\<lparr>category := None\<rparr>) out = map (\<lambda>r. r\<lparr>category := None\<rparr>) df"
  using assms by (auto simp: classify_payments_with_eq stage3_map comp_def split: if_splits)

lemma classify_idem:
  assumes "classify_payments_with kw dm df udm = Inr out"
  shows "classify_payments_with kw dm out udm = Inr out"
proof -
  have "classify_payments_with kw dm out udm
      = classify_payments_with kw dm (map (\<lambda>r. r\<lparr>category := None\<rparr>) out) udm"
    by (simp only: classify_ignores_category)
  also have "\<dots> = classify_payments_with kw dm (map (\<lambda>r. r\<lparr>category := None\<rparr>) df) udm"
    by (simp only: classify_strip [OF assms])
  also have "\<dots> = Inr out"
    using assms by (simp only: classify_ignores_category)
  finally show ?thesis .
qed

lemma tier0_category_foldl:
  "tier0_category dm True r =
    foldl (\<lambda>expr (dept, et, cat). if department r = dept \<and> expense_type r = et then Some cat else expr)
      (Some []) (tier0_conditions dm)"
  by (simp add: tier0_category_def tier0_expr_def)

lemma foldl_mapping_lookup:
  assumes "distinct (map fst m)"
  shows "foldl (\<lambda>expr (dept, et, cat). if d = dept \<and> e = et then Some cat else expr) init
      (map (\<lambda>(et, cat). (d0, et, cat)) m)
    = (if d = d0 then (case map_of m e of None \<Rightarrow> init | Some c \<Rightarrow> Some c) else init)"
  using assms
proof (induction m arbitrary: init)
  case Nil
  show ?case by simp
next
  case (Cons x m)
  let ?f = "\<lambda>expr (dept, et, cat). if d = dept \<and> e = et then Some cat else expr"
  let ?g = "\<lambda>(et, cat). (d0, et, cat)"
  obtain e' c' where x: "x = (e', c')" by (cases x)
  from Cons.prems x have fresh: "map_of m e' = None" and dist: "distinct (map fst m)"
    by (auto simp: map_of_eq_None_iff)
  have "foldl ?f init (map ?g (x # m)) = foldl ?f (?f init (d0, e', c')) (map ?g m)"
    by (simp add: x)
  also have "\<dots> = (if d = d0
      then (case map_of m e of None \<Rightarrow> ?f init (d0, e', c') | Some c \<Rightarrow> Some c)
      else ?f init (d0, e', c'))"
    by (rule Cons.IH [OF dist])
  also have "\<dots> = (if d = d0 then (case map_of (x # m) e of None \<Rightarrow> init | Some c \<Rightarrow> Some c) else init)"
    using fresh by (auto simp: x split: option.splits)
  finally show ?case .
qed

lemma foldl_conditions_lookup:
  assumes "distinct (map fst dm)" and "\<forall>(dept, mapping) \<in> set dm. distinct (map fst mapping)"
  shows "foldl (\<lambda>expr (dept, et, cat). if d = dept \<and> e = et then Some cat else expr) init
      (tier0_conditions dm)
    = (case direct_lookup dm d e of None \<Rightarrow> init | Some c \<Rightarrow> Some c)"
  using assms
proof (induction dm arbitrary: init)
  case Nil
  show ?case by (simp add: tier0_conditions_def direct_lookup_def)
next
  case (Cons x dm)
  obtain d0 m0 where x: "x = (d0, m0)" by (cases x)
  from Cons.prems x have fresh: "map_of dm d0 = None" and dist: "distinct (map fst dm)"
    and inner: "distinct (map fst m0)"
    and rest: "\<forall>(dept, mapping) \<in> set dm. distinct (map fst mapping)"
    by (auto simp: map_of_eq_None_iff)
  have split: "tier0_conditions (x # dm) = map (\<lambda>(et, cat). (d0, et, cat)) m0 @ tier0_conditions dm"
    by (simp add: tier0_conditions_def x)
  have unfold: "\<And>dept. direct_lookup (x # dm) dept e
      = (if dept = d0 then map_of m0 e else direct_lookup dm dept e)"
    by (simp add: direct_lookup_def x)
  have none: "direct_lookup dm d0 e = None"
    using fresh by (simp add: direct_lookup_def)
  show ?case
    unfolding split foldl_append foldl_mapping_lookup [OF inner] Cons.IH [OF dist rest] unfold
    using none by (simp split: option.splits)
qed

lemma tier0_category_lookup:
  assumes "distinct (map fst dm)" and "\<forall>(dept, mapping) \<in> set dm. distinct (map fst mapping)"
  shows "tier0_category dm True r =
    (case direct_lookup dm (department r) (expense_type r) of None \<Rightarrow> Some [] | Some c \<Rightarrow> Some c)"
  unfolding tier0_category_foldl by (rule foldl_conditions_lookup [OF assms])

lemma direct_lookup_target:
  assumes "direct_lookup dm d e = Some c"
  shows "\<exists>(dept, mapping) \<in> set dm. c \<in> set (map snd mapping)"
proof -
  from assms obtain m where "map_of dm d = Some m" "map_of m e = Some c"
    by (auto simp: direct_lookup_def split: option.splits)
  then have "(d, m) \<in> set dm" "(e, c) \<in> set m"
    by (auto dest: map_of_SomeD)
  then show ?thesis by force
qed

lemma foldl_conditions_range:
  "foldl (\<lambda>expr (dept, et, cat). if P dept et then Some cat else expr) init conds = init
    \<or> (\<exists>(d, e, c) \<in> set conds.
          foldl (\<lambda>expr (dept, et, cat). if P dept et then Some cat else expr) init conds = Some c)"
proof (induction conds rule: rev_induct)
  case Nil
  show ?case by simp
next
  case (snoc x conds)
  obtain d e c where x: "x = (d, e, c)" by (cases x)
  from snoc show ?case by (auto simp: x)
qed

lemma tier0_category_range:
  "tier0_category dm udm r = Some []
    \<or> (\<exists>(dept, mapping) \<in> set dm. \<exists>c \<in> set (map snd mapping). tier0_category dm udm r = Some c)"
proof (cases udm)
  case False
  then show ?thesis by (simp add: tier0_category_def)
next
  case True
  have "tier0_category dm True r = Some []
      \<or> (\<exists>(d, e, c) \<in> set (tier0_conditions dm). tier0_category dm True r = Some c)"
    unfolding tier0_category_foldl by (rule foldl_conditions_range)
  then consider "tier0_category dm True r = Some []"
    | d e c where "(d, e, c) \<in> set (tier0_conditions dm)" "tier0_category dm True r = Some c"
    by auto
  then show ?thesis
  proof cases
    case 1
    with True show ?thesis by simp
  next
    case 2
    from 2(1) obtain m where "(d, m) \<in> set dm" "(e, c) \<in> set m"
      by (auto simp: tier0_conditions_def)
    then have dm: "(d, m) \<in> set dm" and c: "c \<in> set (map snd m)" by force+
    have "\<exists>(dept, mapping) \<in> set dm. \<exists>c \<in> set (map snd mapping). tier0_category dm True r = Some c"
      by (rule bexI [OF _ dm]) (use c 2(2) in auto)
    with True show ?thesis by simp
  qed
qed

section \<open>The search against the case-folded substring\<close>

text \<open>
  For an ASCII keyword the search of the pattern \<open>(?i)kw\<close> finds a match exactly when
  the keyword is a case-insensitive substring of the value.
\<close>

lemma ascii_lower_table:
  "ascii_lower c =
    (case map_of (zip ''ABCDEFGHIJKLMNOPQRSTUVWXYZ'' ''abcdefghijklmnopqrstuvwxyz'') c of
       Some l \<Rightarrow> l | None \<Rightarrow> c)"
  by (cases c) (auto simp: ascii_lower_def)

lemma ascii_lower_ascii: "(of_char c :: nat) < 128 \<Longrightarrow> (of_char (ascii_lower c) :: nat) < 128"
  by (cases c) (auto simp: ascii_lower_def)

lemma ascii_lower_high: "\<not> (of_char b :: nat) < 128 \<Longrightarrow> ascii_lower b = b"
  by (simp add: ascii_lower_def)

lemma ascii_lower_eq_ascii:
  assumes "(of_char c :: nat) < 128" and "ascii_lower b = ascii_lower c"
  shows "(of_char b :: nat) < 128"
proof (rule ccontr)
  assume high: "\<not> (of_char b :: nat) < 128"
  from ascii_lower_ascii [OF assms(1)] assms(2) have "(of_char (ascii_lower b) :: nat) < 128"
    by simp
  with high show False by (simp add: ascii_lower_high)
qed

lemma casefold_ascii: "ascii_string kw \<Longrightarrow> casefold kw = map ascii_lower kw"
proof (induction kw)
  case Nil
  show ?case by simp
next
  case (Cons c kw)
  then have c: "(of_char c :: nat) < 128" and IH: "casefold kw = map ascii_lower kw"
    by (simp_all add: ascii_string_def)
  from c have "\<not> prefix long_s (c # kw)" "\<not> prefix kelvin_sign (c # kw)"
    by (auto simp: long_s_def kelvin_sign_def)
  with IH show ?case by simp
qed

lemma matches_at_prefix:
  "ascii_string kw \<Longrightarrow> matches_at kw s = prefix (map ascii_lower kw) (casefold s)"
proof (induction kw arbitrary: s)
  case Nil
  show ?case by simp
next
  case (Cons c kw)
  then have c: "(of_char c :: nat) < 128" and kw: "ascii_string kw"
    by (simp_all add: ascii_string_def)
  note IH = Cons.IH [OF kw]
  show ?case
  proof (cases s)
    case Nil
    then show ?thesis by (simp add: long_s_def kelvin_sign_def)
  next
    case (Cons b rest)
    consider (long_s) "prefix long_s s" | (kelvin) "prefix kelvin_sign s"
      | (plain) "\<not> prefix long_s s" "\<not> prefix kelvin_sign s"
      by blast
    then show ?thesis
    proof cases
      case long_s
      then obtain s' where s: "s = CHR 0xC5 # CHR 0xBF # s'"
        by (auto simp: long_s_def prefix_def)
      have "ascii_lower (CHR 0xC5) \<noteq> ascii_lower c"
        using ascii_lower_eq_ascii [OF c, of "CHR 0xC5"] by auto
      then show ?thesis
        by (simp add: s IH long_s_def kelvin_sign_def)
    next
      case kelvin
      then obtain s' where s: "s = CHR 0xE2 # CHR 0x84 # CHR 0xAA # s'"
        by (auto simp: kelvin_sign_def prefix_def)
      have "ascii_lower (CHR 0xE2) \<noteq> ascii_lower c"
        using ascii_lower_eq_ascii [OF c, of "CHR 0xE2"] by auto
      then show ?thesis
        by (simp add: s IH long_s_def kelvin_sign_def)
    next
      case plain
      with Cons show ?thesis
        by (auto simp: IH)
    qed
  qed
qed

lemma prefix_lower_high:
  assumes "ascii_string (c # kw)" and "\<not> (of_char b :: nat) < 128"
  shows "\<not> prefix (map ascii_lower (c # kw)) (b # t)"
proof
  assume "prefix (map ascii_lower (c # kw)) (b # t)"
  then have "ascii_lower c = b" by simp
  with ascii_lower_ascii [of c] assms show False
    by (simp add: ascii_string_def)
qed

lemma contains_ci_sublist:
  assumes "ascii_string kw"
  shows "contains_ci kw s = sublist (map ascii_lower kw) (casefold s)"
proof (cases kw)
  case Nil
  then show ?thesis by (cases s) simp_all
next
  case (Cons c kw')
  note m = matches_at_prefix [OF assms]
  have skip: "\<not> matches_at kw (b # t)" if "\<not> (of_char b :: nat) < 128" "casefold (b # t) = b # u" for b t u
    unfolding m that(2) using prefix_lower_high [OF assms [unfolded Cons] that(1)] Cons by simp
  show ?thesis
  proof (induction s rule: casefold.induct)
    case 1
    show ?case unfolding contains_ci.simps m by (simp add: Cons)
  next
    case (2 b s)
    consider (long_s) "prefix long_s (b # s)" | (kelvin) "prefix kelvin_sign (b # s)"
      | (plain) "\<not> prefix long_s (b # s)" "\<not> prefix kelvin_sign (b # s)"
      by blast
    then show ?case
    proof cases
      case long_s
      then obtain s' where s: "s = CHR 0xBF # s'" and b: "b = CHR 0xC5"
        by (auto simp: long_s_def prefix_def)
      from 2(1) [OF long_s] s have IH: "contains_ci kw s' = sublist (map ascii_lower kw) (casefold s')"
        by simp
      have cf: "casefold (b # s) = CHR ''s'' # casefold s'"
        using long_s s by simp
      have "\<not> matches_at kw (CHR 0xBF # s')"
        by (rule skip [where u = "casefold s'"]) (simp_all add: long_s_def kelvin_sign_def ascii_lower_def)
      then have "contains_ci kw (b # s) = (matches_at kw (b # s) \<or> contains_ci kw s')"
        by (simp add: s)
      also have "\<dots> = sublist (map ascii_lower kw) (casefold (b # s))"
        unfolding IH m cf by (simp add: Cons sublist_Cons_right)
      finally show ?thesis .
    next
      case kelvin
      then obtain s' where s: "s = CHR 0x84 # CHR 0xAA # s'" and b: "b = CHR 0xE2"
        by (auto simp: kelvin_sign_def prefix_def)
      have nl: "\<not> prefix long_s (b # s)"
        by (simp add: b long_s_def)
      from 2(2) [OF nl kelvin] s have IH: "contains_ci kw s' = sublist (map ascii_lower kw) (casefold s')"
        by simp
      have cf: "casefold (b # s) = CHR ''k'' # casefold s'"
        using kelvin nl s by simp
      have "\<not> matches_at kw (CHR 0xAA # s')"
        by (rule skip [where u = "casefold s'"]) (simp_all add: long_s_def kelvin_sign_def ascii_lower_def)
      moreover have "\<not> matches_at kw (CHR 0x84 # CHR 0xAA # s')"
        by (rule skip [where u = "CHR 0xAA # casefold s'"])
          (simp_all add: long_s_def kelvin_sign_def ascii_lower_def)
      ultimately have "contains_ci kw (b # s) = (matches_at kw (b # s) \<or> contains_ci kw s')"
        by (simp add: s)
      also have "\<dots> = sublist (map ascii_lower kw) (casefold (b # s))"
        unfolding IH m cf by (simp add: Cons sublist_Cons_right)
      finally show ?thesis .
    next
      case plain
      from 2(3) [OF plain] have IH: "contains_ci kw s = sublist (map ascii_lower kw) (casefold s)" .
      have cf: "casefold (b # s) = ascii_lower b # casefold s"
        using plain by simp
      show ?thesis
        unfolding contains_ci.simps IH m cf by (simp add: Cons sublist_Cons_right)
    qed
  qed
qed

lemma contains_ci_iff_ci_substring:
  "ascii_string kw \<Longrightarrow> contains_ci kw s = ci_substring kw s"
  by (simp add: contains_ci_sublist ci_substring_def casefold_ascii)

lemma ci_substring_examples:
  "ci_substring ''software'' ''Annual SOFTWARE fees''"
  "ci_substring ''IT'' ''Legal advice on capital works''"
  "ci_substring ''software'' (long_s @ ''oftware legal'')"
  "ci_substring ''network'' (''NETWOR'' @ kelvin_sign @ '' upgrade'')"
  "\<not> ci_substring ''software'' ''soft ware''"
  "\<not> ci_substring ''software'' ''zzz''"
  "\<not> ci_substring ''IT'' ''''"
  by code_simp+

section \<open>The shipped configuration\<close>

lemma CATEGORIES_nonempty: "[] \<notin> set CATEGORIES"
  by (simp add: CATEGORIES_def)

lemma CATEGORY_KEYWORDS_ok: "keyword_table_ok CATEGORIES CATEGORY_KEYWORDS"
  by (simp add: keyword_table_ok_def CATEGORIES_def CATEGORY_KEYWORDS_def insert_commute)

lemma DIRECT_EXPENSE_TYPE_MAPPING_ok: "direct_mapping_ok CATEGORIES DIRECT_EXPENSE_TYPE_MAPPING"
  by (simp add: direct_mapping_ok_def CATEGORIES_def DIRECT_EXPENSE_TYPE_MAPPING_def)

lemma shipped_config_valid:
  "validate_config CATEGORIES CATEGORY_KEYWORDS DIRECT_EXPENSE_TYPE_MAPPING ANOMALY_THRESHOLDS = Inr ()"
  by (simp add: validate_config_def CATEGORY_KEYWORDS_ok DIRECT_EXPENSE_TYPE_MAPPING_ok ANOMALY_THRESHOLDS_def)

lemma CATEGORY_KEYWORDS_lists_nonempty: "\<forall>(cat, kws) \<in> set CATEGORY_KEYWORDS. kws \<noteq> []"
  by (simp add: CATEGORY_KEYWORDS_def)

lemma CATEGORY_KEYWORDS_plain: "\<forall>(cat, kws) \<in> set CATEGORY_KEYWORDS. \<forall>kw \<in> set kws. plain_keyword kw"
  by code_simp

lemma DIRECT_EXPENSE_TYPE_MAPPING_distinct:
  "distinct (map fst DIRECT_EXPENSE_TYPE_MAPPING)"
  "\<forall>(dept, mapping) \<in> set DIRECT_EXPENSE_TYPE_MAPPING. distinct (map fst mapping)"
  by code_simp+

lemma keyword_category_ok:
  assumes "keyword_table_ok CATEGORIES kw"
    and "c = Some [] \<or> (\<exists>x \<in> set CATEGORIES. c = Some x)"
  shows "keyword_category kw v c = Some [] \<or> (\<exists>x \<in> set CATEGORIES. keyword_category kw v c = Some x)"
proof -
  from assms(1) have "fst ` set kw = set CATEGORIES"
    by (simp add: keyword_table_ok_def)
  with keyword_category_range [of kw v c] assms(2) show ?thesis
    by auto
qed

lemma tier0_category_ok:
  assumes "direct_mapping_ok CATEGORIES dm"
  shows "tier0_category dm udm r = Some [] \<or> (\<exists>x \<in> set CATEGORIES. tier0_category dm udm r = Some x)"
  using tier0_category_range [of dm udm r] assms
  by (fastforce simp: direct_mapping_ok_def)

lemma keeps_assigned_tier1: "keeps_assigned s (tier1 kw s)"
  by (simp add: keeps_assigned_def tier1_map keyword_category_assigned)

lemma keeps_assigned_tier2: "keeps_assigned s (tier2 kw s)"
  by (simp add: keeps_assigned_def tier2_map keyword_category_assigned)

lemma keeps_assigned_mark_uncategorised: "keeps_assigned s (mark_uncategorised s)"
  by (simp add: keeps_assigned_def mark_uncategorised_def)

lemma stages_ok:
  assumes "keyword_table_ok CATEGORIES kw" and "direct_mapping_ok CATEGORIES dm"
  shows "\<forall>r \<in> set (tier0 dm udm (with_category (\<lambda>_. Some []) df)).
      category r = Some [] \<or> (\<exists>c \<in> set CATEGORIES. category r = Some c)"
    and "\<forall>r \<in> set (tier1 kw (tier0 dm udm (with_category (\<lambda>_. Some []) df))).
      category r = Some [] \<or> (\<exists>c \<in> set CATEGORIES. category r = Some c)"
    and "\<forall>r \<in> set (tier2 kw (tier1 kw (tier0 dm udm (with_category (\<lambda>_. Some []) df)))).
      category r = Some [] \<or> (\<exists>c \<in> set CATEGORIES. category r = Some c)"
proof -
  have t0: "tier0_category dm udm r = Some [] \<or> (\<exists>x \<in> set CATEGORIES. tier0_category dm udm r = Some x)"
    for r by (rule tier0_category_ok [OF assms(2)])
  have t1: "keyword_category kw v (tier0_category dm udm r) = Some []
      \<or> (\<exists>x \<in> set CATEGORIES. keyword_category kw v (tier0_category dm udm r) = Some x)"
    for r v by (rule keyword_category_ok [OF assms(1) t0])
  have t2: "keyword_category kw w (keyword_category kw v (tier0_category dm udm r)) = Some []
      \<or> (\<exists>x \<in> set CATEGORIES.
            keyword_category kw w (keyword_category kw v (tier0_category dm udm r)) = Some x)"
    for r v w by (rule keyword_category_ok [OF assms(1) t1])
  show "\<forall>r \<in> set (tier0 dm udm (with_category (\<lambda>_. Some []) df)).
      category r = Some [] \<or> (\<exists>c \<in> set CATEGORIES. category r = Some c)"
    unfolding stage0_map using t0 by auto
  show "\<forall>r \<in> set (tier1 kw (tier0 dm udm (with_category (\<lambda>_. Some []) df))).
      category r = Some [] \<or> (\<exists>c \<in> set CATEGORIES. category r = Some c)"
    unfolding stage1_map using t1 by auto
  show "\<forall>r \<in> set (tier2 kw (tier1 kw (tier0 dm udm (with_category (\<lambda>_. Some []) df)))).
      category r = Some [] \<or> (\<exists>c \<in> set CATEGORIES. category r = Some c)"
    unfolding stage2_map using t2 by auto
qed

lemma mark_uncategorised_ok:
  assumes "\<forall>r \<in> set s. category r = Some [] \<or> (\<exists>c \<in> set CATEGORIES. category r = Some c)"
  shows "\<forall>r \<in> set (mark_uncategorised s).
    \<exists>c. category r = Some c \<and> c \<noteq> [] \<and> (c \<in> set CATEGORIES \<or> c = ''Uncategorised'')"
  using assms CATEGORIES_nonempty
  by (auto simp: mark_uncategorised_def with_category_def)

section \<open>Properties of the classification\<close>

text \<open>
  Claim C5. For a valid configuration (the keyword table names exactly the declared
  categories, the direct mapping targets only declared categories) and every table:
  the classifier raises only on the table without rows; otherwise every output row
  holds one category, which is a declared category or \<open>Uncategorised\<close> and never the
  empty string or absent; after each of the tiers a row is unclassified or holds a
  declared category; and no later stage changes a category that is already set.
\<close>

theorem classified_category_invariant:
  assumes "keyword_table_ok CATEGORIES kw" and "direct_mapping_ok CATEGORIES dm"
  shows "case classify_payments_with kw dm df use_direct_map of
      Inl e \<Rightarrow> df = []
    | Inr out \<Rightarrow>
        (let s0 = tier0 dm use_direct_map (with_category (\<lambda>_. Some []) df);
             s1 = tier1 kw s0;
             s2 = tier2 kw s1
         in out = mark_uncategorised s2 \<and> length out = length df \<and>
            (\<forall>r \<in> set out. \<exists>c. category r = Some c \<and> c \<noteq> [] \<and>
               (c \<in> set CATEGORIES \<or> c = ''Uncategorised'')) \<and>
            (\<forall>r \<in> set s0 \<union> set s1 \<union> set s2.
               category r = Some [] \<or> (\<exists>c \<in> set CATEGORIES. category r = Some c)) \<and>
            keeps_assigned s0 s1 \<and> keeps_assigned s1 s2 \<and> keeps_assigned s2 out)"
proof (cases "df = []")
  case True
  then show ?thesis by (simp add: classify_payments_with_eq)
next
  case False
  let ?s0 = "tier0 dm use_direct_map (with_category (\<lambda>_. Some []) df)"
  let ?s1 = "tier1 kw ?s0"
  let ?s2 = "tier2 kw ?s1"
  let ?out = "mark_uncategorised ?s2"
  note ok = stages_ok [OF assms, of use_direct_map df]
  have len: "length ?out = length df"
    by (simp add: stage3_map)
  have final: "\<forall>r \<in> set ?out. \<exists>c. category r = Some c \<and> c \<noteq> [] \<and>
      (c \<in> set CATEGORIES \<or> c = ''Uncategorised'')"
    by (rule mark_uncategorised_ok [OF ok(3)])
  have stages: "\<forall>r \<in> set ?s0 \<union> set ?s1 \<union> set ?s2.
      category r = Some [] \<or> (\<exists>c \<in> set CATEGORIES. category r = Some c)"
    using ok by blast
  have "classify_payments_with kw dm df use_direct_map = Inr ?out"
    using False by (simp add: classify_payments_with_eq)
  then show ?thesis
    using len final stages keeps_assigned_tier1 [of ?s0 kw] keeps_assigned_tier2 [of ?s1 kw]
      keeps_assigned_mark_uncategorised [of ?s2]
    by (simp only: sum.case Let_def simp_thms)
qed

theorem classified_category_invariant_witness:
  "keyword_table_ok CATEGORIES CATEGORY_KEYWORDS \<and> direct_mapping_ok CATEGORIES DIRECT_EXPENSE_TYPE_MAPPING \<and>
   (\<exists>out. classify_payments_with CATEGORY_KEYWORDS DIRECT_EXPENSE_TYPE_MAPPING
        [\<lparr>department = ''DfT'', supplier = ''ACME LTD'', amount = 1200, date = 20100,
          expense_type = ''Research'', description = ''Road survey'', category = None\<rparr>,
         \<lparr>department = ''HMRC'', supplier = ''XYZ'', amount = 75, date = 20101,
          expense_type = '''', description = '''', category = None\<rparr>] True = Inr out
      \<and> length out = 2
      \<and> (\<forall>r \<in> set out. \<exists>c. category r = Some c \<and> c \<noteq> [] \<and>
            (c \<in> set CATEGORIES \<or> c = ''Uncategorised'')))"
  using classified_category_invariant [OF CATEGORY_KEYWORDS_ok DIRECT_EXPENSE_TYPE_MAPPING_ok,
      of "[\<lparr>department = ''DfT'', supplier = ''ACME LTD'', amount = 1200, date = 20100,
          expense_type = ''Research'', description = ''Road survey'', category = None\<rparr>,
         \<lparr>department = ''HMRC'', supplier = ''XYZ'', amount = 75, date = 20101,
          expense_type = '''', description = '''', category = None\<rparr>]" True]
    CATEGORY_KEYWORDS_ok DIRECT_EXPENSE_TYPE_MAPPING_ok
  by (simp add: Let_def split: sum.splits)

text \<open>
  Claim C9. The classifier ignores a category column the table already carries: two
  tables that agree on every other column are classified alike, and classifying the
  output of a run again returns that output.
\<close>

theorem classification_idempotent:
  assumes "map (\<lambda>r. r\<lparr>category := None\<rparr>) df' = map (\<lambda>r. r\<lparr>category := None\<rparr>) df"
  shows "classify_payments_with kw dm df' use_direct_map = classify_payments_with kw dm df use_direct_map
    \<and> (\<forall>out. classify_payments_with kw dm df use_direct_map = Inr out
          \<longrightarrow> classify_payments_with kw dm out use_direct_map = Inr out)"
proof -
  have "classify_payments_with kw dm df' use_direct_map
      = classify_payments_with kw dm (map (\<lambda>r. r\<lparr>category := None\<rparr>) df') use_direct_map"
    by (simp only: classify_ignores_category)
  also have "\<dots> = classify_payments_with kw dm df use_direct_map"
    unfolding assms by (simp only: classify_ignores_category)
  finally show ?thesis
    using classify_idem by blast
qed

theorem classification_idempotent_witness:
  "map (\<lambda>r. r\<lparr>category := None\<rparr>)
      [\<lparr>department = ''DfT'', supplier = ''ACME LTD'', amount = 1200, date = 20100,
        expense_type = ''Research'', description = ''Road survey'', category = Some ''Legal''\<rparr>]
    = map (\<lambda>r. r\<lparr>category := None\<rparr>)
      [\<lparr>department = ''DfT'', supplier = ''ACME LTD'', amount = 1200, date = 20100,
        expense_type = ''Research'', description = ''Road survey'', category = None\<rparr>]
   \<and> classify_payments_with CATEGORY_KEYWORDS DIRECT_EXPENSE_TYPE_MAPPING
      [\<lparr>department = ''DfT'', supplier = ''ACME LTD'', amount = 1200, date = 20100,
        expense_type = ''Research'', description = ''Road survey'', category = Some ''Legal''\<rparr>] True
    = classify_payments_with CATEGORY_KEYWORDS DIRECT_EXPENSE_TYPE_MAPPING
      [\<lparr>department = ''DfT'', supplier = ''ACME LTD'', amount = 1200, date = 20100,
        expense_type = ''Research'', description = ''Road survey'', category = None\<rparr>] True
   \<and> (\<exists>out. classify_payments_with CATEGORY_KEYWORDS DIRECT_EXPENSE_TYPE_MAPPING
      [\<lparr>department = ''DfT'', supplier = ''ACME LTD'', amount = 1200, date = 20100,
        expense_type = ''Research'', description = ''Road survey'', category = None\<rparr>] True = Inr out
      \<and> classify_payments_with CATEGORY_KEYWORDS DIRECT_EXPENSE_TYPE_MAPPING out True = Inr out)"
proof -
  let ?old = "\<lparr>department = ''DfT'', supplier = ''ACME LTD'', amount = 1200, date = 20100,
        expense_type = ''Research'', description = ''Road survey'', category = Some ''Legal''\<rparr>"
  let ?new = "\<lparr>department = ''DfT'', supplier = ''ACME LTD'', amount = 1200, date = 20100,
        expense_type = ''Research'', description = ''Road survey'', category = None\<rparr>"
  have same: "map (\<lambda>r. r\<lparr>category := None\<rparr>) [?old] = map (\<lambda>r. r\<lparr>category := None\<rparr>) [?new]"
    by simp
  have runs: "\<exists>out. classify_payments_with CATEGORY_KEYWORDS DIRECT_EXPENSE_TYPE_MAPPING [?new] True = Inr out"
    by (simp add: classify_payments_with_eq)
  from classification_idempotent [OF same, of CATEGORY_KEYWORDS DIRECT_EXPENSE_TYPE_MAPPING True] same runs
  show ?thesis by blast
qed

lemma classify_payments_with_nth:
  assumes "i < length df"
  shows "\<exists>out. classify_payments_with kw dm df udm = Inr out \<and>
    category (out ! i) =
      (let c = keyword_category kw (expense_type (df ! i))
         (keyword_category kw (description (df ! i)) (tier0_category dm udm (df ! i)))
       in if c = Some [] then Some ''Uncategorised'' else c)"
proof -
  from assms have "df \<noteq> []" by auto
  then show ?thesis
    using assms by (simp add: classify_payments_with_eq stage3_map)
qed

lemma stage0_nth:
  "i < length df \<Longrightarrow>
    category (tier0 dm udm (with_category (\<lambda>_. Some []) df) ! i) = tier0_category dm udm (df ! i)"
  by (simp add: stage0_map)

lemma stage1_nth:
  "i < length df \<Longrightarrow>
    category (tier1 kw (tier0 dm udm (with_category (\<lambda>_. Some []) df)) ! i)
      = keyword_category kw (description (df ! i)) (tier0_category dm udm (df ! i))"
  by (simp add: stage1_map)

lemma CATEGORY_KEYWORDS_names: "[] \<notin> fst ` set CATEGORY_KEYWORDS"
  using CATEGORY_KEYWORDS_ok CATEGORIES_nonempty by (simp add: keyword_table_ok_def)

lemma str_contains_plain:
  assumes "keywords \<noteq> []" and "\<forall>kw \<in> set keywords. plain_keyword kw"
  shows "str_contains keywords v = list_ex (\<lambda>kw. ci_substring kw v) keywords"
  using assms
  by (simp add: str_contains_def list_ex_iff plain_keyword_def contains_ci_iff_ci_substring)

lemma find_shipped_keywords:
  "find (\<lambda>(cat, keywords). str_contains keywords v) CATEGORY_KEYWORDS
    = find (\<lambda>(cat, keywords). list_ex (\<lambda>kw. ci_substring kw v) keywords) CATEGORY_KEYWORDS"
proof (intro find_cong refl)
  fix x assume x: "x \<in> set CATEGORY_KEYWORDS"
  obtain cat kws where c: "x = (cat, kws)" by (cases x)
  from x c CATEGORY_KEYWORDS_lists_nonempty CATEGORY_KEYWORDS_plain
  have "kws \<noteq> []" "\<forall>kw \<in> set kws. plain_keyword kw" by auto
  then show "(case x of (cat, keywords) \<Rightarrow> str_contains keywords v)
      = (case x of (cat, keywords) \<Rightarrow> list_ex (\<lambda>kw. ci_substring kw v) keywords)"
    by (simp add: c str_contains_plain)
qed

text \<open>
  Claim C2. Under the shipped configuration, a record that Tier 0 left unclassified
  holds after Tier 1, and in the output of the classifier, the first category in the
  order of \<open>CATEGORY_KEYWORDS\<close> one of whose keywords is a case-insensitive substring
  of the description; with no such category it is still unclassified after Tier 1.
\<close>

theorem tier1_first_category_wins:
  assumes "i < length df"
    and "category (tier0 DIRECT_EXPENSE_TYPE_MAPPING use_direct_map (with_category (\<lambda>_. Some []) df) ! i) = Some []"
  shows "case find (\<lambda>(cat, keywords). list_ex (\<lambda>kw. ci_substring kw (description (df ! i))) keywords)
        CATEGORY_KEYWORDS of
      None \<Rightarrow>
        category (tier1 CATEGORY_KEYWORDS
          (tier0 DIRECT_EXPENSE_TYPE_MAPPING use_direct_map (with_category (\<lambda>_. Some []) df)) ! i) = Some []
    | Some (cat, keywords) \<Rightarrow>
        category (tier1 CATEGORY_KEYWORDS
          (tier0 DIRECT_EXPENSE_TYPE_MAPPING use_direct_map (with_category (\<lambda>_. Some []) df)) ! i) = Some cat
        \<and> (\<exists>out. classify_payments df use_direct_map = Inr out \<and> category (out ! i) = Some cat)"
proof -
  let ?v = "description (df ! i)"
  let ?found = "find (\<lambda>(cat, keywords). list_ex (\<lambda>kw. ci_substring kw ?v) keywords) CATEGORY_KEYWORDS"
  from assms have t0: "tier0_category DIRECT_EXPENSE_TYPE_MAPPING use_direct_map (df ! i) = Some []"
    by (simp add: stage0_nth)
  have t1: "keyword_category CATEGORY_KEYWORDS ?v (Some [])
      = (case ?found of None \<Rightarrow> Some [] | Some (cat, keywords) \<Rightarrow> Some cat)"
    by (simp add: keyword_category_first_match [OF CATEGORY_KEYWORDS_names] find_shipped_keywords)
  show ?thesis
  proof (cases ?found)
    case None
    with t0 t1 assms(1) show ?thesis by (simp add: stage1_nth)
  next
    case (Some hit)
    obtain cat kws where hit: "hit = (cat, kws)" by (cases hit)
    from Some hit have "(cat, kws) \<in> set CATEGORY_KEYWORDS"
      by (auto simp: find_Some_iff dest: nth_mem)
    with CATEGORY_KEYWORDS_names have "cat \<noteq> []" by force
    with classify_payments_with_nth [OF assms(1), of CATEGORY_KEYWORDS DIRECT_EXPENSE_TYPE_MAPPING use_direct_map]
      t0 t1 Some hit assms(1)
    show ?thesis
      by (simp add: stage1_nth classify_payments_def keyword_category_assigned)
  qed
qed

text \<open>
  Three rows that Tier 0 leaves unclassified: the first holds \<open>IT\<close> inside
  \<open>capital\<close>, before any keyword of \<open>Legal\<close> is tried; the second spells
  \<open>software\<close> with a long s; the third holds no keyword.
\<close>

theorem tier1_first_category_wins_witness:
  "let df =
        [\<lparr>department = ''HMRC'', supplier = ''COUNSEL LLP'', amount = 5000, date = 20100,
           expense_type = ''Misc'', description = ''Legal advice on capital works'', category = None\<rparr>,
         \<lparr>department = ''HMRC'', supplier = ''COUNSEL LLP'', amount = 5000, date = 20100,
           expense_type = ''Misc'', description = long_s @ ''oftware legal'', category = None\<rparr>,
         \<lparr>department = ''HMRC'', supplier = ''COUNSEL LLP'', amount = 5000, date = 20100,
           expense_type = ''Misc'', description = ''zzz'', category = None\<rparr>];
       s0 = tier0 DIRECT_EXPENSE_TYPE_MAPPING True (with_category (\<lambda>_. Some []) df)
   in 0 < length df \<and> 1 < length df \<and> 2 < length df
      \<and> category (s0 ! 0) = Some [] \<and> category (s0 ! 1) = Some [] \<and> category (s0 ! 2) = Some []
      \<and> (\<exists>out. classify_payments df True = Inr out
            \<and> category (out ! 0) = Some ''IT'' \<and> category (out ! 1) = Some ''IT'')
      \<and> category (tier1 CATEGORY_KEYWORDS s0 ! 2) = Some []"
proof -
  let ?df = "[\<lparr>department = ''HMRC'', supplier = ''COUNSEL LLP'', amount = 5000, date = 20100,
           expense_type = ''Misc'', description = ''Legal advice on capital works'', category = None\<rparr>,
         \<lparr>department = ''HMRC'', supplier = ''COUNSEL LLP'', amount = 5000, date = 20100,
           expense_type = ''Misc'', description = long_s @ ''oftware legal'', category = None\<rparr>,
         \<lparr>department = ''HMRC'', supplier = ''COUNSEL LLP'', amount = 5000, date = 20100,
           expense_type = ''Misc'', description = ''zzz'', category = None\<rparr>]"
  let ?s0 = "tier0 DIRECT_EXPENSE_TYPE_MAPPING True (with_category (\<lambda>_. Some []) ?df)"
  let ?found = "\<lambda>i. find (\<lambda>(cat, keywords). list_ex (\<lambda>kw. ci_substring kw (description (?df ! i))) keywords)
      CATEGORY_KEYWORDS"
  have len: "0 < length ?df" "1 < length ?df" "2 < length ?df" by simp_all
  have open0: "category (?s0 ! 0) = Some []" by code_simp
  have open1: "category (?s0 ! 1) = Some []" by code_simp
  have open2: "category (?s0 ! 2) = Some []" by code_simp
  have hit0: "map_option fst (?found 0) = Some ''IT''" by code_simp
  have hit1: "map_option fst (?found 1) = Some ''IT''" by code_simp
  have hit2: "?found 2 = None" by code_simp
  from tier1_first_category_wins [OF len(1) open0] hit0
  obtain out0 where out0: "classify_payments ?df True = Inr out0" "category (out0 ! 0) = Some ''IT''"
    by (auto split: option.splits)
  from tier1_first_category_wins [OF len(2) open1] hit1
  obtain out1 where out1: "classify_payments ?df True = Inr out1" "category (out1 ! 1) = Some ''IT''"
    by (auto split: option.splits)
  from out0 out1 have both: "\<exists>out. classify_payments ?df True = Inr out
      \<and> category (out ! 0) = Some ''IT'' \<and> category (out ! 1) = Some ''IT''"
    by simp
  from tier1_first_category_wins [OF len(3) open2] hit2
  have none: "category (tier1 CATEGORY_KEYWORDS ?s0 ! 2) = Some []"
    by simp
  from len open0 open1 open2 both none show ?thesis
    unfolding Let_def by (intro conjI)
qed

text \<open>
  Claim C6. Under the shipped configuration with the direct mapping enabled, a record
  whose department and expense type have an entry in the direct mapping, looked up by
  string equality, is classified as the mapped category whatever its description;
  without an entry Tier 0 leaves it unclassified.
\<close>

theorem direct_mapping_takes_precedence:
  assumes "i < length df"
  shows "case direct_lookup DIRECT_EXPENSE_TYPE_MAPPING (department (df ! i)) (expense_type (df ! i)) of
      None \<Rightarrow>
        category (tier0 DIRECT_EXPENSE_TYPE_MAPPING True (with_category (\<lambda>_. Some []) df) ! i) = Some []
    | Some cat \<Rightarrow>
        category (tier0 DIRECT_EXPENSE_TYPE_MAPPING True (with_category (\<lambda>_. Some []) df) ! i) = Some cat
        \<and> (\<exists>out. classify_payments df True = Inr out \<and> category (out ! i) = Some cat)"
proof -
  let ?hit = "direct_lookup DIRECT_EXPENSE_TYPE_MAPPING (department (df ! i)) (expense_type (df ! i))"
  have t0: "tier0_category DIRECT_EXPENSE_TYPE_MAPPING True (df ! i)
      = (case ?hit of None \<Rightarrow> Some [] | Some c \<Rightarrow> Some c)"
    by (rule tier0_category_lookup [OF DIRECT_EXPENSE_TYPE_MAPPING_distinct])
  show ?thesis
  proof (cases ?hit)
    case None
    with t0 assms show ?thesis by (simp add: stage0_nth)
  next
    case (Some cat)
    from direct_lookup_target [OF Some] DIRECT_EXPENSE_TYPE_MAPPING_ok CATEGORIES_nonempty
    have "cat \<noteq> []"
      by (fastforce simp: direct_mapping_ok_def)
    with classify_payments_with_nth [OF assms, of CATEGORY_KEYWORDS DIRECT_EXPENSE_TYPE_MAPPING True]
      t0 Some assms
    show ?thesis
      by (simp add: stage0_nth classify_payments_def keyword_category_assigned)
  qed
qed

theorem direct_mapping_takes_precedence_witness:
  "(0::nat) < length [\<lparr>department = ''HMRC'', supplier = ''ACME LTD'', amount = 300, date = 20100,
        expense_type = ''Tribunal appellant costs'', description = ''software licence'', category = None\<rparr>]
   \<and> direct_lookup DIRECT_EXPENSE_TYPE_MAPPING ''HMRC'' ''Tribunal appellant costs'' = Some ''Legal''
   \<and> (\<exists>out. classify_payments
        [\<lparr>department = ''HMRC'', supplier = ''ACME LTD'', amount = 300, date = 20100,
          expense_type = ''Tribunal appellant costs'', description = ''software licence'', category = None\<rparr>] True
        = Inr out \<and> category (out ! 0) = Some ''Legal'')"
proof -
  let ?df = "[\<lparr>department = ''HMRC'', supplier = ''ACME LTD'', amount = 300, date = 20100,
        expense_type = ''Tribunal appellant costs'', description = ''software licence'', category = None\<rparr>]"
  have len: "0 < length ?df" by simp
  have hit: "direct_lookup DIRECT_EXPENSE_TYPE_MAPPING ''HMRC'' ''Tribunal appellant costs'' = Some ''Legal''"
    by code_simp
  from direct_mapping_takes_precedence [OF len] hit len
  show ?thesis by simp
qed

section \<open>The high-payment detector\<close>

lemma nonempty_or_empty_df [simp]: "(if xs \<noteq> [] then xs else empty_anomaly_df) = xs"
  by (simp add: empty_anomaly_df_def)

lemma high_rows_Cons:
  "mset (concat (map (\<lambda>(dept, threshold).
        map (mk threshold) (filter (\<lambda>r. department r = dept \<and> amount r > threshold) (row # df))) ths))
    = mset (concat (map (\<lambda>(dept, threshold).
        if department row = dept \<and> amount row > threshold then [mk threshold row] else []) ths))
      + mset (concat (map (\<lambda>(dept, threshold).
        map (mk threshold) (filter (\<lambda>r. department r = dept \<and> amount r > threshold) df)) ths))"
  by (induction ths) auto

lemma high_rows_single:
  assumes "distinct (map fst ths)"
  shows "mset (concat (map (\<lambda>(dept, threshold).
        if department row = dept \<and> amount row > threshold then [mk threshold row] else []) ths))
    = (case map_of ths (department row) of
         None \<Rightarrow> {#}
       | Some t \<Rightarrow> if amount row > t then {#mk t row#} else {#})"
  using assms
proof (induction ths)
  case Nil
  show ?case by simp
next
  case (Cons x ths)
  obtain d t where x: "x = (d, t)" by (cases x)
  from Cons.prems x have "map_of ths d = None" and "distinct (map fst ths)"
    by (auto simp: map_of_eq_None_iff)
  with Cons.IH show ?case by (simp add: x)
qed

lemma high_rows_mset:
  assumes "distinct (map fst ths)"
  shows "mset (concat (map (\<lambda>(dept, threshold).
        map (mk threshold) (filter (\<lambda>r. department r = dept \<and> amount r > threshold) df)) ths))
    = {# mk (the (map_of ths (department r))) r.
         r \<in># filter_mset (\<lambda>r. case map_of ths (department r) of None \<Rightarrow> False | Some t \<Rightarrow> amount r > t)
           (mset df) #}"
proof (induction df)
  case Nil
  show ?case by (induction ths) auto
next
  case (Cons row df)
  show ?case
    unfolding high_rows_Cons high_rows_single [OF assms] Cons.IH
    by (simp split: option.splits)
qed

text \<open>
  Claim C4. The high-payment detector emits one anomaly for each record whose
  department has a threshold and whose amount is strictly above it, and nothing else:
  as multisets, its output is the image of the flagged records, each anomaly carrying
  the record's department, supplier and amount, type \<open>high_payment\<close>, severity
  \<open>high\<close> and count 1. A record of a department without a threshold is not flagged,
  and the detector has no failing path.
\<close>

theorem high_payments_exactly_flagged:
  assumes "distinct (map fst (high_payment thr))"
  shows "mset (detect_high_payments thr df) =
    {# \<lparr>department = department r, supplier = supplier r, amount = amount r,
        anomaly_type = ''high_payment'', severity = ''high'',
        details = High_payment_details (amount r) (the (map_of (high_payment thr) (department r))),
        count = 1\<rparr>.
       r \<in># filter_mset
         (\<lambda>r. case map_of (high_payment thr) (department r) of
                None \<Rightarrow> False | Some threshold \<Rightarrow> amount r > threshold)
         (mset df) #}"
  unfolding detect_high_payments_def Let_def nonempty_or_empty_df
  by (rule high_rows_mset [OF assms])

theorem high_payments_exactly_flagged_witness:
  "distinct (map fst (high_payment ANOMALY_THRESHOLDS)) \<and>
   mset (detect_high_payments ANOMALY_THRESHOLDS
     [\<lparr>department = ''HMRC'', supplier = ''A LTD'', amount = 934000, date = 20100,
        expense_type = '''', description = '''', category = Some ''Uncategorised''\<rparr>,
      \<lparr>department = ''HMRC'', supplier = ''B LTD'', amount = 934001, date = 20100,
        expense_type = '''', description = '''', category = Some ''Uncategorised''\<rparr>,
      \<lparr>department = ''Cabinet Office'', supplier = ''C LTD'', amount = 5000000, date = 20100,
        expense_type = '''', description = '''', category = Some ''Uncategorised''\<rparr>])
   = {# \<lparr>department = ''HMRC'', supplier = ''B LTD'', amount = 934001,
         anomaly_type = ''high_payment'', severity = ''high'',
         details = High_payment_details 934001 934000, count = 1\<rparr> #}"
proof -
  have keys: "distinct (map fst (high_payment ANOMALY_THRESHOLDS))"
    by (simp add: ANOMALY_THRESHOLDS_def)
  from high_payments_exactly_flagged [OF keys] keys show ?thesis
    by (simp add: ANOMALY_THRESHOLDS_def)
qed

section \<open>The duplicate-pattern detector\<close>

lemma concat_map_filter:
  "concat (map h (filter p xs)) = concat (map (\<lambda>x. if p x then h x else []) xs)"
  by (induction xs) simp_all

lemma filter_keyed_concat:
  assumes "distinct ks" and "\<And>k a. k \<in> set ks \<Longrightarrow> a \<in> set (f k) \<Longrightarrow> key a = k"
  shows "filter (\<lambda>a. key a = k0) (concat (map f ks)) = (if k0 \<in> set ks then f k0 else [])"
  using assms
proof (induction ks)
  case Nil
  show ?case by simp
next
  case (Cons k ks)
  have here: "filter (\<lambda>a. key a = k0) (f k) = (if k = k0 then f k else [])"
    using Cons.prems(2) [of k] by (auto simp: filter_empty_conv filter_id_conv)
  have rest: "filter (\<lambda>a. key a = k0) (concat (map f ks)) = (if k0 \<in> set ks then f k0 else [])"
    using Cons.prems by (intro Cons.IH) auto
  from Cons.prems(1) have "k \<notin> set ks" by simp
  then show ?case
    by (auto simp: here rest)
qed

lemma detect_duplicate_patterns_groups:
  "detect_duplicate_patterns thr df =
    concat (map (\<lambda>k. case k of (dept, supp, amt) \<Rightarrow>
        (let rows = filter (\<lambda>r. (department r, supplier r, amount r) = k) df
         in if 2 \<le> length rows \<and> has_close_dates (sort (map date rows)) (duplicate_window_days thr)
            then [\<lparr>department = dept, supplier = supp, amount = amt,
                   anomaly_type = ''duplicate_pattern'',
                   severity = (if 4 \<le> length rows then ''high'' else ''medium''),
                   details = Duplicate_details amt (length rows) (duplicate_window_days thr),
                   count = length rows\<rparr>]
            else []))
      (remdups (map (\<lambda>r. (department r, supplier r, amount r)) df)))"
  unfolding detect_duplicate_patterns_def Let_def nonempty_or_empty_df concat_map_filter group_by_def
  by (auto simp: comp_def case_prod_beta intro!: arg_cong [where f = concat])

text \<open>
  Claim C8. Among the anomalies of the duplicate detector, those of a given department,
  supplier and amount are: exactly one when the group of records with that key has at
  least two members and an adjacent pair of its sorted dates within the window, none
  otherwise. That anomaly counts every record of the group, carries the shared amount,
  and has severity \<open>high\<close> for four or more records and \<open>medium\<close> for two or three.
\<close>

theorem duplicate_group_anomaly:
  "let group = filter (\<lambda>r. department r = dept \<and> supplier r = supp \<and> amount r = amt) df;
       n = length group
   in filter (\<lambda>a. department a = dept \<and> supplier a = supp \<and> amount a = amt)
        (detect_duplicate_patterns thr df)
      = (if 2 \<le> n \<and> has_close_dates (sort (map date group)) (duplicate_window_days thr)
         then [\<lparr>department = dept, supplier = supp, amount = amt,
                anomaly_type = ''duplicate_pattern'',
                severity = (if 4 \<le> n then ''high'' else ''medium''),
                details = Duplicate_details amt n (duplicate_window_days thr),
                count = n\<rparr>]
         else [])"
proof -
  let ?key = "\<lambda>r :: payment. (department r, supplier r, amount r)"
  let ?akey = "\<lambda>a :: anomaly. (department a, supplier a, amount a)"
  let ?f = "\<lambda>k. case k of (dept, supp, amt) \<Rightarrow>
        (let rows = filter (\<lambda>r. ?key r = k) df
         in if 2 \<le> length rows \<and> has_close_dates (sort (map date rows)) (duplicate_window_days thr)
            then [\<lparr>department = dept, supplier = supp, amount = amt,
                   anomaly_type = ''duplicate_pattern'',
                   severity = (if 4 \<le> length rows then ''high'' else ''medium''),
                   details = Duplicate_details amt (length rows) (duplicate_window_days thr),
                   count = length rows\<rparr>]
            else [])"
  have keyed: "?akey a = k" if "a \<in> set (?f k)" for k a
    using that by (cases k) (auto simp: Let_def split: if_splits)
  have "filter (\<lambda>a. ?akey a = (dept, supp, amt)) (concat (map ?f (remdups (map ?key df))))
      = (if (dept, supp, amt) \<in> set (remdups (map ?key df)) then ?f (dept, supp, amt) else [])"
    by (rule filter_keyed_concat) (use keyed in auto)
  moreover have "filter (\<lambda>r. ?key r = (dept, supp, amt)) df = []"
    if "(dept, supp, amt) \<notin> set (remdups (map ?key df))"
    using that by (auto simp: filter_empty_conv)
  ultimately show ?thesis
    unfolding detect_duplicate_patterns_groups
    by (auto simp: Let_def)
qed

theorem duplicate_group_anomaly_witness:
  "filter (\<lambda>a. department a = ''DfT'' \<and> supplier a = ''S LTD'' \<and> amount a = 100)
     (detect_duplicate_patterns ANOMALY_THRESHOLDS
       [\<lparr>department = ''DfT'', supplier = ''S LTD'', amount = 100, date = 20120,
          expense_type = '''', description = '''', category = Some ''Uncategorised''\<rparr>,
        \<lparr>department = ''DfT'', supplier = ''S LTD'', amount = 100, date = 20089,
          expense_type = '''', description = '''', category = Some ''Uncategorised''\<rparr>,
        \<lparr>department = ''DfT'', supplier = ''T LTD'', amount = 100, date = 20090,
          expense_type = '''', description = '''', category = Some ''Uncategorised''\<rparr>,
        \<lparr>department = ''DfT'', supplier = ''S LTD'', amount = 100, date = 20091,
          expense_type = '''', description = '''', category = Some ''Uncategorised''\<rparr>])
   = [\<lparr>department = ''DfT'', supplier = ''S LTD'', amount = 100,
       anomaly_type = ''duplicate_pattern'', severity = ''medium'',
       details = Duplicate_details 100 3 7, count = 3\<rparr>]"
  using duplicate_group_anomaly [of "''DfT''" "''S LTD''" 100
      "[\<lparr>department = ''DfT'', supplier = ''S LTD'', amount = 100, date = 20120,
          expense_type = '''', description = '''', category = Some ''Uncategorised''\<rparr>,
        \<lparr>department = ''DfT'', supplier = ''S LTD'', amount = 100, date = 20089,
          expense_type = '''', description = '''', category = Some ''Uncategorised''\<rparr>,
        \<lparr>department = ''DfT'', supplier = ''T LTD'', amount = 100, date = 20090,
          expense_type = '''', description = '''', category = Some ''Uncategorised''\<rparr>,
        \<lparr>department = ''DfT'', supplier = ''S LTD'', amount = 100, date = 20091,
          expense_type = '''', description = '''', category = Some ''Uncategorised''\<rparr>]"
      ANOMALY_THRESHOLDS]
  by (simp add: ANOMALY_THRESHOLDS_def Let_def)

section \<open>The order of the aggregated table\<close>

lemma concat_nonempty_frames: "concat (filter (\<lambda>a. length a > 0) frames) = concat frames"
  by (induction frames) auto

lemma detect_high_payments_type:
  "\<forall>a \<in> set (detect_high_payments thr df). anomaly_type a = ''high_payment''"
  by (auto simp: detect_high_payments_def)

lemma detect_duplicate_patterns_type:
  "\<forall>a \<in> set (detect_duplicate_patterns thr df). anomaly_type a = ''duplicate_pattern''"
  by (auto simp: detect_duplicate_patterns_groups Let_def split: if_splits)

lemma spend_results_type:
  "spend_results t rows = Inr results \<Longrightarrow>
    \<forall>a \<in> set results. anomaly_type a = ''supplier_concentration_spend''"
  by (induction t rows arbitrary: results rule: spend_results.induct)
    (auto split: sum.splits)

lemma txn_results_type:
  "txn_results t rows = Inr results \<Longrightarrow>
    \<forall>a \<in> set results. anomaly_type a = ''supplier_concentration_txn''"
  by (induction t rows arbitrary: results rule: txn_results.induct)
    (auto split: sum.splits)

lemma detect_supplier_concentration_blocks:
  assumes "detect_supplier_concentration thr df = Inr conc"
  shows "\<exists>spend txn. conc = spend @ txn
    \<and> (\<forall>a \<in> set spend. anomaly_type a = ''supplier_concentration_spend'')
    \<and> (\<forall>a \<in> set txn. anomaly_type a = ''supplier_concentration_txn'')"
proof -
  from assms obtain spend txn
    where s: "spend_results (concentration_threshold_spend thr) (high_spend thr df) = Inr spend"
      and t: "txn_results (concentration_threshold_txn thr) (high_txn thr df) = Inr txn"
      and c: "conc = spend @ txn"
    by (auto simp: detect_supplier_concentration_def Let_def split: sum.splits)
  from spend_results_type [OF s] txn_results_type [OF t] c show ?thesis by blast
qed

lemma detect_anomalies_blocks:
  assumes "detect_anomalies thr df = Inr table"
  shows "\<exists>conc. detect_supplier_concentration thr df = Inr conc
    \<and> table = detect_high_payments thr df @ detect_duplicate_patterns thr df @ conc"
  using assms
  by (auto simp: detect_anomalies_def pl_concat_def Let_def split: sum.splits if_splits)

lemma sorted_rank_blocks:
  fixes hp dp cs ct :: "anomaly list"
  assumes "\<forall>a \<in> set hp. anomaly_type a = ''high_payment''"
    and "\<forall>a \<in> set dp. anomaly_type a = ''duplicate_pattern''"
    and "\<forall>a \<in> set cs. anomaly_type a = ''supplier_concentration_spend''"
    and "\<forall>a \<in> set ct. anomaly_type a = ''supplier_concentration_txn''"
  shows "sorted (map (\<lambda>a. detector_rank (anomaly_type a)) (hp @ dp @ cs @ ct))"
proof -
  have "sorted (map (\<lambda>a. detector_rank (anomaly_type a)) xs)"
    if "\<forall>a \<in> set xs. anomaly_type a = t" for xs :: "anomaly list" and t
    using that by (induction xs) auto
  note const = this
  show ?thesis
    using assms const [OF assms(1)] const [OF assms(2)] const [OF assms(3)] const [OF assms(4)]
    by (auto simp: sorted_append detector_rank_def)
qed

text \<open>
  Claim C10. Whenever the aggregator returns a table, its rows are in detector order:
  the high payments, then the duplicate patterns, then the spend concentrations, then
  the transaction concentrations; no other type occurs. This holds for every input
  table, so in particular for every order of its rows.
\<close>

theorem detect_anomalies_detector_order:
  assumes "detect_anomalies thr df = Inr table"
  shows "sorted (map (\<lambda>a. detector_rank (anomaly_type a)) table)
    \<and> (\<forall>a \<in> set table. anomaly_type a \<in>
          {''high_payment'', ''duplicate_pattern'', ''supplier_concentration_spend'',
           ''supplier_concentration_txn''})"
proof -
  from detect_anomalies_blocks [OF assms] obtain conc
    where conc: "detect_supplier_concentration thr df = Inr conc"
      and table: "table = detect_high_payments thr df @ detect_duplicate_patterns thr df @ conc"
    by blast
  from detect_supplier_concentration_blocks [OF conc] obtain spend txn
    where split: "conc = spend @ txn"
      and spend: "\<forall>a \<in> set spend. anomaly_type a = ''supplier_concentration_spend''"
      and txn: "\<forall>a \<in> set txn. anomaly_type a = ''supplier_concentration_txn''"
    by blast
  have "sorted (map (\<lambda>a. detector_rank (anomaly_type a)) table)"
    unfolding table split
    by (rule sorted_rank_blocks [OF detect_high_payments_type detect_duplicate_patterns_type spend txn])
  moreover have "\<forall>a \<in> set table. anomaly_type a \<in>
          {''high_payment'', ''duplicate_pattern'', ''supplier_concentration_spend'',
           ''supplier_concentration_txn''}"
    unfolding table split
    using detect_high_payments_type [of thr df] detect_duplicate_patterns_type [of thr df] spend txn
    by auto
  ultimately show ?thesis ..
qed

theorem detect_anomalies_detector_order_witness:
  "\<exists>table. detect_anomalies ANOMALY_THRESHOLDS
      [\<lparr>department = ''HMRC'', supplier = ''A LTD'', amount = 934001, date = 20091,
         expense_type = '''', description = '''', category = Some ''Uncategorised''\<rparr>,
       \<lparr>department = ''HMRC'', supplier = ''A LTD'', amount = 934001, date = 20089,
         expense_type = '''', description = '''', category = Some ''Uncategorised''\<rparr>] = Inr table
    \<and> map anomaly_type table =
        [''high_payment'', ''high_payment'', ''duplicate_pattern'',
         ''supplier_concentration_spend'', ''supplier_concentration_txn'']
    \<and> sorted (map (\<lambda>a. detector_rank (anomaly_type a)) table)"
proof -
  let ?df = "[\<lparr>department = ''HMRC'', supplier = ''A LTD'', amount = 934001, date = 20091,
         expense_type = '''', description = '''', category = Some ''Uncategorised''\<rparr>,
       \<lparr>department = ''HMRC'', supplier = ''A LTD'', amount = 934001, date = 20089,
         expense_type = '''', description = '''', category = Some ''Uncategorised''\<rparr>]"
  have "map_sum id (map anomaly_type) (detect_anomalies ANOMALY_THRESHOLDS ?df) =
      Inr [''high_payment'', ''high_payment'', ''duplicate_pattern'',
         ''supplier_concentration_spend'', ''supplier_concentration_txn'']"
    by code_simp
  then obtain table where run: "detect_anomalies ANOMALY_THRESHOLDS ?df = Inr table"
    and types: "map anomaly_type table =
        [''high_payment'', ''high_payment'', ''duplicate_pattern'',
         ''supplier_concentration_spend'', ''supplier_concentration_txn'']"
    by (cases "detect_anomalies ANOMALY_THRESHOLDS ?df") auto
  from detect_anomalies_detector_order [OF run] run types show ?thesis
    by (intro exI [of _ table]) simp
qed

section \<open>The supplier-concentration detector\<close>

text \<open>
  Claim C7. A department and supplier should be flagged for spend concentration exactly
  when the supplier's share of the department's spend is strictly above the threshold.
  On a table in which the amounts of a department sum to zero (here a payment and its
  reversal) the filter, dividing columns, keeps the supplier with the positive total
  (its share is infinite), and the loop over the flagged rows divides the same numbers
  as Python floats and raises ZeroDivisionError. No table is returned, so the supplier
  of the other department, whose share is 100 per cent, is not flagged either.
\<close>

theorem spend_concentration_zero_department_total:
  "detect_supplier_concentration ANOMALY_THRESHOLDS
     [\<lparr>department = ''DfT'', supplier = ''A LTD'', amount = 100, date = 20089,
        expense_type = '''', description = '''', category = Some ''Uncategorised''\<rparr>,
      \<lparr>department = ''DfT'', supplier = ''B LTD'', amount = - 100, date = 20090,
        expense_type = '''', description = '''', category = Some ''Uncategorised''\<rparr>,
      \<lparr>department = ''HMRC'', supplier = ''C LTD'', amount = 50, date = 20091,
        expense_type = '''', description = '''', category = Some ''Uncategorised''\<rparr>]
    = Inl ZeroDivisionError
   \<and> (50 :: rat) / 50 > concentration_threshold_spend ANOMALY_THRESHOLDS"
  by code_simp

text \<open>
  With exact sums, that is, in the model: when no department of the table has a zero
  total, the detector returns, and the spend anomalies of a department and supplier
  are as the claim says. For the source this covers the tables whose Float64 sums are
  exact; where rounding makes a Float64 department total zero, the source raises as
  above.
\<close>

lemma filter_key_singleton:
  assumes "distinct (map fst xs)" and "k \<in> fst ` set xs"
  shows "filter (\<lambda>(d, v). d = k) xs = [(k, the (map_of xs k))]"
  using assms
proof (induction xs)
  case Nil
  then show ?case by simp
next
  case (Cons x xs)
  obtain d v where x: "x = (d, v)" by (cases x)
  show ?case
  proof (cases "d = k")
    case True
    with Cons.prems x have "k \<notin> fst ` set xs" by auto
    then have "filter (\<lambda>(d, v). d = k) xs = []"
      by (force simp: filter_empty_conv)
    with True x show ?thesis by simp
  next
    case False
    with Cons x show ?thesis by auto
  qed
qed

lemma join_department_total:
  assumes "distinct (map fst right)" and "\<forall>(dept, supp, a, b) \<in> set left. dept \<in> fst ` set right"
  shows "join_department left right
    = map (\<lambda>(dept, supp, a, b). (dept, supp, a, b, the (map_of right dept))) left"
  using assms(2)
proof (induction left)
  case Nil
  show ?case by (simp add: join_department_def)
next
  case (Cons x left)
  obtain dept supp a b where x: "x = (dept, supp, a, b)" by (cases x)
  with Cons.prems have "dept \<in> fst ` set right" by simp
  from filter_key_singleton [OF assms(1) this]
  have "join_department (x # left) right
      = (dept, supp, a, b, the (map_of right dept)) # join_department left right"
    by (simp add: join_department_def x)
  with Cons show ?case by (simp add: x)
qed

lemma map_of_group_totals:
  "d \<in> set ks \<Longrightarrow> map_of (map (\<lambda>k. (k, f k)) ks) d = Some (f d)"
  by (induction ks) auto

lemma spend_results_nonzero:
  assumes "\<forall>(dept, supp, st, n, dt) \<in> set rows. dt \<noteq> 0"
  shows "spend_results t rows =
    Inr (map (\<lambda>(dept, supp, st, n, dt).
        \<lparr>department = dept, supplier = supp, amount = st,
         anomaly_type = ''supplier_concentration_spend'', severity = ''high'',
         details = Spend_share_details (st / dt * 100) (t * 100), count = n\<rparr>) rows)"
  using assms
  by (induction t rows rule: spend_results.induct) (auto simp: py_div_def)

lemma txn_results_nonzero:
  assumes "\<forall>(dept, supp, n, st, dn) \<in> set rows. dn \<noteq> 0"
  shows "txn_results t rows =
    Inr (map (\<lambda>(dept, supp, n, st, dn).
        \<lparr>department = dept, supplier = supp, amount = st,
         anomaly_type = ''supplier_concentration_txn'', severity = ''medium'',
         details = Txn_share_details (of_nat n / of_nat dn * 100) (t * 100), count = n\<rparr>) rows)"
  using assms
  by (induction t rows rule: txn_results.induct) (auto simp: py_div_def)

lemma high_spend_rows:
  "high_spend thr df =
    filter (\<lambda>(dept, supp, st, n, dt). float_gt (float_div st dt) (concentration_threshold_spend thr))
      (map (\<lambda>(dept, supp).
          (dept, supp,
           sum_list (map amount (filter (\<lambda>r. (department r, supplier r) = (dept, supp)) df)),
           length (filter (\<lambda>r. (department r, supplier r) = (dept, supp)) df),
           sum_list (map amount (filter (\<lambda>r. department r = dept) df))))
        (remdups (map (\<lambda>r. (department r, supplier r)) df)))"
proof -
  let ?right = "map (\<lambda>(dept, rows). (dept, sum_list (map amount rows))) (group_by department df)"
  let ?left = "map (\<lambda>((dept, supp), rows). (dept, supp, sum_list (map amount rows), length rows))
             (group_by (\<lambda>r. (department r, supplier r)) df)"
  have right: "?right = map (\<lambda>d. (d, sum_list (map amount (filter (\<lambda>r. department r = d) df))))
      (remdups (map department df))"
    by (simp add: group_by_def comp_def)
  have dist: "distinct (map fst ?right)"
    by (simp add: right comp_def)
  have keys: "fst ` set ?right = department ` set df"
    by (force simp: right)
  have present: "\<forall>(dept, supp, a, b) \<in> set ?left. dept \<in> fst ` set ?right"
    unfolding keys by (auto simp: group_by_def)
  have total: "the (map_of ?right d) = sum_list (map amount (filter (\<lambda>r. department r = d) df))"
    if "d \<in> department ` set df" for d
    unfolding right using that by (subst map_of_group_totals) auto
  have "join_department ?left ?right
      = map (\<lambda>(dept, supp, a, b). (dept, supp, a, b, the (map_of ?right dept))) ?left"
    by (rule join_department_total [OF dist present])
  also have "\<dots> = map (\<lambda>(dept, supp).
          (dept, supp,
           sum_list (map amount (filter (\<lambda>r. (department r, supplier r) = (dept, supp)) df)),
           length (filter (\<lambda>r. (department r, supplier r) = (dept, supp)) df),
           sum_list (map amount (filter (\<lambda>r. department r = dept) df))))
        (remdups (map (\<lambda>r. (department r, supplier r)) df))"
    using total by (auto simp: group_by_def comp_def)
  finally show ?thesis
    by (simp add: high_spend_def Let_def)
qed

lemma high_txn_rows:
  "high_txn thr df =
    filter (\<lambda>(dept, supp, n, st, dn).
        float_gt (float_div (of_nat n) (of_nat dn)) (concentration_threshold_txn thr))
      (map (\<lambda>(dept, supp).
          (dept, supp,
           length (filter (\<lambda>r. (department r, supplier r) = (dept, supp)) df),
           sum_list (map amount (filter (\<lambda>r. (department r, supplier r) = (dept, supp)) df)),
           length (filter (\<lambda>r. department r = dept) df)))
        (remdups (map (\<lambda>r. (department r, supplier r)) df)))"
proof -
  let ?right = "map (\<lambda>(dept, rows). (dept, length rows)) (group_by department df)"
  let ?left = "map (\<lambda>((dept, supp), rows). (dept, supp, length rows, sum_list (map amount rows)))
             (group_by (\<lambda>r. (department r, supplier r)) df)"
  have right: "?right = map (\<lambda>d. (d, length (filter (\<lambda>r. department r = d) df)))
      (remdups (map department df))"
    by (simp add: group_by_def comp_def)
  have dist: "distinct (map fst ?right)"
    by (simp add: right comp_def)
  have keys: "fst ` set ?right = department ` set df"
    by (force simp: right)
  have present: "\<forall>(dept, supp, a, b) \<in> set ?left. dept \<in> fst ` set ?right"
    unfolding keys by (auto simp: group_by_def)
  have total: "the (map_of ?right d) = length (filter (\<lambda>r. department r = d) df)"
    if "d \<in> department ` set df" for d
    unfolding right using that by (subst map_of_group_totals) auto
  have "join_department ?left ?right
      = map (\<lambda>(dept, supp, a, b). (dept, supp, a, b, the (map_of ?right dept))) ?left"
    by (rule join_department_total [OF dist present])
  also have "\<dots> = map (\<lambda>(dept, supp).
          (dept, supp,
           length (filter (\<lambda>r. (department r, supplier r) = (dept, supp)) df),
           sum_list (map amount (filter (\<lambda>r. (department r, supplier r) = (dept, supp)) df)),
           length (filter (\<lambda>r. department r = dept) df)))
        (remdups (map (\<lambda>r. (department r, supplier r)) df))"
    using total by (auto simp: group_by_def comp_def)
  finally show ?thesis
    by (simp add: high_txn_def Let_def)
qed

lemma map_filter_map_concat:
  "map f (filter p (map g xs)) = concat (map (\<lambda>x. if p (g x) then [f (g x)] else []) xs)"
  by (induction xs) simp_all

lemma supplier_concentration_returns:
  assumes "\<forall>r \<in> set df. sum_list (map amount (filter (\<lambda>x. department x = department r) df)) \<noteq> 0"
  shows "detect_supplier_concentration thr df =
    Inr (map (\<lambda>(dept, supp, st, n, dt).
            \<lparr>department = dept, supplier = supp, amount = st,
             anomaly_type = ''supplier_concentration_spend'', severity = ''high'',
             details = Spend_share_details (st / dt * 100) (concentration_threshold_spend thr * 100),
             count = n\<rparr>) (high_spend thr df)
         @ map (\<lambda>(dept, supp, n, st, dn).
            \<lparr>department = dept, supplier = supp, amount = st,
             anomaly_type = ''supplier_concentration_txn'', severity = ''medium'',
             details = Txn_share_details (of_nat n / of_nat dn * 100) (concentration_threshold_txn thr * 100),
             count = n\<rparr>) (high_txn thr df))"
proof -
  have s: "\<forall>(dept, supp, st, n, dt) \<in> set (high_spend thr df). dt \<noteq> 0"
    unfolding high_spend_rows using assms by auto
  have t: "\<forall>(dept, supp, n, st, dn) \<in> set (high_txn thr df). dn \<noteq> 0"
    unfolding high_txn_rows by (auto simp: filter_empty_conv)
  show ?thesis
    unfolding detect_supplier_concentration_def spend_results_nonzero [OF s] txn_results_nonzero [OF t]
    by (simp add: empty_anomaly_df_def)
qed

lemma spend_concentration_flags:
  assumes "\<forall>r \<in> set df. sum_list (map amount (filter (\<lambda>x. department x = department r) df)) \<noteq> 0"
  shows "\<exists>table. detect_supplier_concentration thr df = Inr table \<and>
    (let rows = filter (\<lambda>r. department r = dept \<and> supplier r = supp) df;
         supplier_total = sum_list (map amount rows);
         dept_total = sum_list (map amount (filter (\<lambda>r. department r = dept) df))
     in filter (\<lambda>a. anomaly_type a = ''supplier_concentration_spend''
                \<and> department a = dept \<and> supplier a = supp) table
        = (if rows \<noteq> [] \<and> supplier_total / dept_total > concentration_threshold_spend thr
           then [\<lparr>department = dept, supplier = supp, amount = supplier_total,
                  anomaly_type = ''supplier_concentration_spend'', severity = ''high'',
                  details = Spend_share_details (supplier_total / dept_total * 100)
                    (concentration_threshold_spend thr * 100),
                  count = length rows\<rparr>]
           else []))"
proof -
  let ?mkS = "\<lambda>(dept, supp, st, n, dt).
            \<lparr>department = dept, supplier = supp, amount = st,
             anomaly_type = ''supplier_concentration_spend'', severity = ''high'',
             details = Spend_share_details (st / dt * 100) (concentration_threshold_spend thr * 100),
             count = n\<rparr>"
  let ?mkT = "\<lambda>(dept, supp, n, st, dn).
            \<lparr>department = dept, supplier = supp, amount = st,
             anomaly_type = ''supplier_concentration_txn'', severity = ''medium'',
             details = Txn_share_details (of_nat n / of_nat dn * 100) (concentration_threshold_txn thr * 100),
             count = n :: nat\<rparr>"
  let ?P = "\<lambda>(dept, supp, st, n, dt). float_gt (float_div st dt) (concentration_threshold_spend thr)"
  let ?G = "\<lambda>(dept, supp).
          (dept, supp,
           sum_list (map amount (filter (\<lambda>r. (department r, supplier r) = (dept, supp)) df)),
           length (filter (\<lambda>r. (department r, supplier r) = (dept, supp)) df),
           sum_list (map amount (filter (\<lambda>r. department r = dept) df)))"
  let ?keys = "remdups (map (\<lambda>r. (department r, supplier r)) df)"
  let ?F = "\<lambda>k. if ?P (?G k) then [?mkS (?G k)] else []"
  let ?key = "\<lambda>a :: anomaly. (department a, supplier a)"
  let ?S = "map ?mkS (high_spend thr df)"
  let ?T = "map ?mkT (high_txn thr df)"
  have run: "detect_supplier_concentration thr df = Inr (?S @ ?T)"
    by (rule supplier_concentration_returns [OF assms])
  have S: "?S = concat (map ?F ?keys)"
    unfolding high_spend_rows by (rule map_filter_map_concat)
  have keyed: "?key a = k" if "a \<in> set (?F k)" for k a
    using that by (cases k) (auto split: if_splits)
  have "filter (\<lambda>a. anomaly_type a = ''supplier_concentration_spend''
                \<and> department a = dept \<and> supplier a = supp) (?S @ ?T)
      = filter (\<lambda>a. ?key a = (dept, supp)) ?S"
    by (auto simp: filter_empty_conv case_prod_beta intro!: filter_cong)
  also have "\<dots> = (if (dept, supp) \<in> set ?keys then ?F (dept, supp) else [])"
    unfolding S by (rule filter_keyed_concat) (use keyed in auto)
  finally have sel: "filter (\<lambda>a. anomaly_type a = ''supplier_concentration_spend''
                \<and> department a = dept \<and> supplier a = supp) (?S @ ?T)
      = (if (dept, supp) \<in> set ?keys then ?F (dept, supp) else [])" .
  have present: "(dept, supp) \<in> set ?keys
      \<longleftrightarrow> filter (\<lambda>r. department r = dept \<and> supplier r = supp) df \<noteq> []"
    by (auto simp: filter_empty_conv)
  have nz: "sum_list (map amount (filter (\<lambda>r. department r = dept) df)) \<noteq> 0"
    if "(dept, supp) \<in> set ?keys"
    using that assms by auto
  show ?thesis
  proof (intro exI conjI)
    show "detect_supplier_concentration thr df = Inr (?S @ ?T)"
      by (rule run)
    show "let rows = filter (\<lambda>r. department r = dept \<and> supplier r = supp) df;
         supplier_total = sum_list (map amount rows);
         dept_total = sum_list (map amount (filter (\<lambda>r. department r = dept) df))
     in filter (\<lambda>a. anomaly_type a = ''supplier_concentration_spend''
                \<and> department a = dept \<and> supplier a = supp) (?S @ ?T)
        = (if rows \<noteq> [] \<and> supplier_total / dept_total > concentration_threshold_spend thr
           then [\<lparr>department = dept, supplier = supp, amount = supplier_total,
                  anomaly_type = ''supplier_concentration_spend'', severity = ''high'',
                  details = Spend_share_details (supplier_total / dept_total * 100)
                    (concentration_threshold_spend thr * 100),
                  count = length rows\<rparr>]
           else [])"
      unfolding Let_def sel
      using nz present by (auto simp: float_div_def)
  qed
qed

lemma spend_concentration_boundary:
  "map_sum id (map (\<lambda>a. (supplier a, anomaly_type a, severity a, amount a, count a)))
     (detect_supplier_concentration
       (ANOMALY_THRESHOLDS\<lparr>concentration_threshold_txn := 1\<rparr>)
       [\<lparr>department = ''DfT'', supplier = ''A LTD'', amount = 150000, date = 20089,
          expense_type = '''', description = '''', category = Some ''Uncategorised''\<rparr>,
        \<lparr>department = ''DfT'', supplier = ''B LTD'', amount = 100000, date = 20090,
          expense_type = '''', description = '''', category = Some ''Uncategorised''\<rparr>,
        \<lparr>department = ''DfT'', supplier = ''B LTD'', amount = 60000, date = 20091,
          expense_type = '''', description = '''', category = Some ''Uncategorised''\<rparr>,
        \<lparr>department = ''DfT'', supplier = ''C LTD'', amount = 690000, date = 20092,
          expense_type = '''', description = '''', category = Some ''Uncategorised''\<rparr>])
   = Inr [(''B LTD'', ''supplier_concentration_spend'', ''high'', 160000, 2),
          (''C LTD'', ''supplier_concentration_spend'', ''high'', 690000, 1)]"
  by code_simp

end
